theory Spec2Isabelle
  imports Complex_Main "HOL-Library.Monad_Syntax" "HOL-Library.AList" "HOL-Library.Char_ord"
    "HOL-Library.List_Lexorder"
begin

section \<open>Numbers as numpy has them\<close>

text \<open>
  The error functions of \<^verbatim>\<open>lib/evaluation/metrics.py\<close> work on numpy arrays, whose
  elements are 64-bit integers or 64-bit floats. An integer operation wraps around
  modulo \<open>2^64\<close>. A float is a finite number, an infinity or not-a-number; a float
  operation rounds the exact result to a float and gives an infinity when the rounded
  result is beyond the largest float. The rounding to the nearest float is the parameter
  \<open>rnd\<close> of everything below, and the properties it has are collected in
  \<open>rounding\<close>. Zero has no sign here. No operation of numpy raises: an invalid
  operation gives not-a-number (and a warning).
\<close>

datatype f64 = Fin real | PInf | NInf | NaN

datatype npval = I64 int | F64 f64

definition wrap64 :: "int \<Rightarrow> int" where
  "wrap64 i = (i + 2 ^ 63) mod 2 ^ 64 - 2 ^ 63"

definition max_float :: real where
  "max_float = 2 ^ 1024 - 2 ^ 971"

definition rounding :: "(real \<Rightarrow> real) \<Rightarrow> bool" where
  "rounding rnd \<longleftrightarrow>
     (\<forall>x y. x \<le> y \<longrightarrow> rnd x \<le> rnd y)
   \<and> (\<forall>x. rnd (rnd x) = rnd x)
   \<and> (\<forall>x. rnd (- x) = - rnd x)
   \<and> (\<forall>x. rnd (2 * rnd x) = 2 * rnd x)
   \<and> (\<forall>i::int. \<bar>i\<bar> \<le> 2 ^ 53 \<longrightarrow> rnd (of_int i) = of_int i)
   \<and> rnd max_float = max_float"

definition fl :: "(real \<Rightarrow> real) \<Rightarrow> real \<Rightarrow> f64" where
  "fl rnd r = (let y = rnd r in
     if y > max_float then PInf else if y < - max_float then NInf else Fin y)"

fun f_neg :: "f64 \<Rightarrow> f64" where
  "f_neg (Fin a) = Fin (- a)"
| "f_neg PInf = NInf"
| "f_neg NInf = PInf"
| "f_neg NaN = NaN"

fun f_abs :: "f64 \<Rightarrow> f64" where
  "f_abs (Fin a) = Fin \<bar>a\<bar>"
| "f_abs PInf = PInf"
| "f_abs NInf = PInf"
| "f_abs NaN = NaN"

fun f_add :: "(real \<Rightarrow> real) \<Rightarrow> f64 \<Rightarrow> f64 \<Rightarrow> f64" where
  "f_add rnd (Fin a) (Fin b) = fl rnd (a + b)"
| "f_add rnd NaN y = NaN"
| "f_add rnd x NaN = NaN"
| "f_add rnd PInf NInf = NaN"
| "f_add rnd NInf PInf = NaN"
| "f_add rnd PInf y = PInf"
| "f_add rnd x PInf = PInf"
| "f_add rnd NInf y = NInf"
| "f_add rnd x NInf = NInf"

definition f_sub :: "(real \<Rightarrow> real) \<Rightarrow> f64 \<Rightarrow> f64 \<Rightarrow> f64" where
  "f_sub rnd x y = (case (x, y) of (Fin a, Fin b) \<Rightarrow> fl rnd (a - b) | _ \<Rightarrow> f_add rnd x (f_neg y))"

text \<open>\<^verbatim>\<open>2.0 * x\<close> and \<^verbatim>\<open>x ** 2\<close> on a float.\<close>

fun f_double :: "(real \<Rightarrow> real) \<Rightarrow> f64 \<Rightarrow> f64" where
  "f_double rnd (Fin a) = fl rnd (2 * a)"
| "f_double rnd x = x"

fun f_square :: "(real \<Rightarrow> real) \<Rightarrow> f64 \<Rightarrow> f64" where
  "f_square rnd (Fin a) = fl rnd (a * a)"
| "f_square rnd NaN = NaN"
| "f_square rnd x = PInf"

fun f_div :: "(real \<Rightarrow> real) \<Rightarrow> f64 \<Rightarrow> f64 \<Rightarrow> f64" where
  "f_div rnd (Fin a) (Fin b) =
     (if b = 0 then (if a = 0 then NaN else if a > 0 then PInf else NInf) else fl rnd (a / b))"
| "f_div rnd NaN y = NaN"
| "f_div rnd x NaN = NaN"
| "f_div rnd (Fin a) y = Fin 0"
| "f_div rnd PInf (Fin b) = (if b < 0 then NInf else PInf)"
| "f_div rnd NInf (Fin b) = (if b < 0 then PInf else NInf)"
| "f_div rnd x y = NaN"

text \<open>\<^verbatim>\<open>np.sqrt\<close> of a float.\<close>

fun np_sqrt :: "(real \<Rightarrow> real) \<Rightarrow> f64 \<Rightarrow> f64" where
  "np_sqrt rnd (Fin a) = (if a < 0 then NaN else fl rnd (sqrt a))"
| "np_sqrt rnd PInf = PInf"
| "np_sqrt rnd x = NaN"

text \<open>An integer becomes a float where an operation needs one.\<close>

fun to_float :: "(real \<Rightarrow> real) \<Rightarrow> npval \<Rightarrow> f64" where
  "to_float rnd (I64 i) = fl rnd (of_int i)"
| "to_float rnd (F64 x) = x"

text \<open>
  The elementwise operations of the module. Two integers are subtracted and added as
  integers; with a float among the operands both are floats. \<^verbatim>\<open>/\<close> is numpy's true
  division and \<^verbatim>\<open>2.0 * x\<close> a float product: their results are floats.
\<close>

fun v_sub :: "(real \<Rightarrow> real) \<Rightarrow> npval \<Rightarrow> npval \<Rightarrow> npval" where
  "v_sub rnd (I64 a) (I64 b) = I64 (wrap64 (a - b))"
| "v_sub rnd x y = F64 (f_sub rnd (to_float rnd x) (to_float rnd y))"

fun v_add :: "(real \<Rightarrow> real) \<Rightarrow> npval \<Rightarrow> npval \<Rightarrow> npval" where
  "v_add rnd (I64 a) (I64 b) = I64 (wrap64 (a + b))"
| "v_add rnd x y = F64 (f_add rnd (to_float rnd x) (to_float rnd y))"

fun v_abs :: "npval \<Rightarrow> npval" where
  "v_abs (I64 a) = I64 (wrap64 \<bar>a\<bar>)"
| "v_abs (F64 x) = F64 (f_abs x)"

fun v_square :: "(real \<Rightarrow> real) \<Rightarrow> npval \<Rightarrow> npval" where
  "v_square rnd (I64 a) = I64 (wrap64 (a * a))"
| "v_square rnd (F64 x) = F64 (f_square rnd x)"

definition v_div :: "(real \<Rightarrow> real) \<Rightarrow> npval \<Rightarrow> npval \<Rightarrow> npval" where
  "v_div rnd x y = F64 (f_div rnd (to_float rnd x) (to_float rnd y))"

definition v_double :: "(real \<Rightarrow> real) \<Rightarrow> npval \<Rightarrow> npval" where
  "v_double rnd x = F64 (f_double rnd (to_float rnd x))"

text \<open>\<^verbatim>\<open>x != 0\<close>: true of the infinities and of not-a-number.\<close>

fun nonzero :: "npval \<Rightarrow> bool" where
  "nonzero (I64 a) = (a \<noteq> 0)"
| "nonzero (F64 (Fin a)) = (a \<noteq> 0)"
| "nonzero (F64 x) = True"

text \<open>
  \<^verbatim>\<open>np.mean\<close>: the elements are added as floats and the sum is divided by their
  number. The mean of an empty array is not-a-number, with a RuntimeWarning and no
  exception. (numpy adds longer arrays pairwise; here the elements are added from left
  to right.)
\<close>

fun f_sum :: "(real \<Rightarrow> real) \<Rightarrow> f64 list \<Rightarrow> f64" where
  "f_sum rnd [] = Fin 0"
| "f_sum rnd (x # xs) = foldl (f_add rnd) x xs"

definition np_mean :: "(real \<Rightarrow> real) \<Rightarrow> npval list \<Rightarrow> f64" where
  "np_mean rnd xs =
     (if xs = [] then NaN
      else f_div rnd (f_sum rnd (map (to_float rnd) xs)) (Fin (real (length xs))))"

section \<open>Arrays\<close>

text \<open>An elementwise binary operation on two one-dimensional arrays: equal shapes pair
  up, an array of length one is broadcast, anything else raises ValueError. An exception
  that leaves a function is the value \<open>None\<close>.\<close>

definition broadcast2 :: "('a \<Rightarrow> 'a \<Rightarrow> 'b) \<Rightarrow> 'a list \<Rightarrow> 'a list \<Rightarrow> 'b list option" where
  "broadcast2 f xs ys =
     (if length xs = length ys then Some (map2 f xs ys)
      else if length xs = 1 then Some (map (\<lambda>y. f (hd xs) y) ys)
      else if length ys = 1 then Some (map (\<lambda>x. f x (hd ys)) xs)
      else None)"

text \<open>\<^verbatim>\<open>np.where(a != 0)[0]\<close>: the positions of the nonzero entries, ascending.\<close>

definition where_nonzero :: "npval list \<Rightarrow> nat list" where
  "where_nonzero a = filter (\<lambda>i. nonzero (a ! i)) [0..<length a]"

text \<open>\<^verbatim>\<open>a[mask]\<close> with an array of positions: IndexError when a position is out of
  range.\<close>

definition take_idx :: "'a list \<Rightarrow> nat list \<Rightarrow> 'a list option" where
  "take_idx a msk = (if \<forall>i \<in> set msk. i < length a then Some (map (\<lambda>i. a ! i) msk) else None)"

section \<open>The five error functions\<close>

text \<open>The body of the \<^verbatim>\<open>try\<close> block of MAPE (lines 17 to 21).\<close>

definition MAPE_try :: "(real \<Rightarrow> real) \<Rightarrow> npval list \<Rightarrow> npval list \<Rightarrow> f64 option" where
  "MAPE_try rnd y_true y_pred =
     do {
       let msk = where_nonzero y_true;
       t \<leftarrow> take_idx y_true msk;
       p \<leftarrow> take_idx y_pred msk;
       d \<leftarrow> broadcast2 (v_sub rnd) t p;
       q \<leftarrow> broadcast2 (v_div rnd) d t;
       Some (np_mean rnd (map v_abs q))
     }"

text \<open>The bare \<^verbatim>\<open>except\<close> turns every exception into the integer 0.\<close>

definition MAPE :: "(real \<Rightarrow> real) \<Rightarrow> npval list \<Rightarrow> npval list \<Rightarrow> npval" where
  "MAPE rnd y_true y_pred =
     (case MAPE_try rnd y_true y_pred of None \<Rightarrow> I64 0 | Some v \<Rightarrow> F64 v)"

text \<open>The body of the \<^verbatim>\<open>try\<close> block of SMAPE (lines 36 to 42).\<close>

definition SMAPE_try :: "(real \<Rightarrow> real) \<Rightarrow> npval list \<Rightarrow> npval list \<Rightarrow> f64 option" where
  "SMAPE_try rnd y_true y_pred =
     do {
       s \<leftarrow> broadcast2 (v_add rnd) (map v_abs y_true) (map v_abs y_pred);
       let msk = where_nonzero s;
       t \<leftarrow> take_idx y_true msk;
       p \<leftarrow> take_idx y_pred msk;
       d \<leftarrow> broadcast2 (v_sub rnd) t p;
       let nominator = map v_abs d;
       denominator \<leftarrow> broadcast2 (v_add rnd) (map v_abs t) (map v_abs p);
       q \<leftarrow> broadcast2 (v_div rnd) (map (v_double rnd) nominator) denominator;
       Some (np_mean rnd q)
     }"

definition SMAPE :: "(real \<Rightarrow> real) \<Rightarrow> npval list \<Rightarrow> npval list \<Rightarrow> npval" where
  "SMAPE rnd y_true y_pred =
     (case SMAPE_try rnd y_true y_pred of None \<Rightarrow> I64 0 | Some v \<Rightarrow> F64 v)"

text \<open>MSE, RMSE and MAE have no handler: a shape mismatch leaves them as an exception.\<close>

definition MSE :: "(real \<Rightarrow> real) \<Rightarrow> npval list \<Rightarrow> npval list \<Rightarrow> f64 option" where
  "MSE rnd y_true y_pred =
     do {
       d \<leftarrow> broadcast2 (v_sub rnd) y_true y_pred;
       Some (np_mean rnd (map (v_square rnd) d))
     }"

definition RMSE :: "(real \<Rightarrow> real) \<Rightarrow> npval list \<Rightarrow> npval list \<Rightarrow> f64 option" where
  "RMSE rnd y_true y_pred =
     do {
       mse \<leftarrow> MSE rnd y_true y_pred;
       Some (np_sqrt rnd mse)
     }"

definition MAE :: "(real \<Rightarrow> real) \<Rightarrow> npval list \<Rightarrow> npval list \<Rightarrow> f64 option" where
  "MAE rnd y_true y_pred =
     do {
       d \<leftarrow> broadcast2 (v_sub rnd) y_true y_pred;
       Some (np_mean rnd (map v_abs d))
     }"

text \<open>Exact arithmetic, a rounding that leaves every number as it is: on inputs whose
  intermediate results are all floats it computes what every rounding computes.\<close>

definition exact :: "real \<Rightarrow> real" where
  "exact x = x"

section \<open>Ranges of the arithmetic\<close>

text \<open>
  A finite number of one of the two element types: a 64-bit integer, or a float that is
  not an infinity and not not-a-number. A value is non-negative when it is a number not
  below zero or the positive infinity.
\<close>

fun is_num :: "(real \<Rightarrow> real) \<Rightarrow> npval \<Rightarrow> bool" where
  "is_num rnd (I64 a) = (- (2 ^ 63) \<le> a \<and> a < 2 ^ 63)"
| "is_num rnd (F64 (Fin a)) = (rnd a = a \<and> \<bar>a\<bar> \<le> max_float)"
| "is_num rnd (F64 x) = False"

fun nonneg :: "npval \<Rightarrow> bool" where
  "nonneg (I64 a) = (0 \<le> a)"
| "nonneg (F64 (Fin a)) = (0 \<le> a)"
| "nonneg (F64 PInf) = True"
| "nonneg (F64 x) = False"

text \<open>
  The denominator \<open>\<bar>truth\<bar> + \<bar>forecast\<bar>\<close> of SMAPE at one position stays in range:
  between two integers the exact sum is below \<open>2^63\<close>, so that neither the absolute
  values nor the sum wrap; with a float among the two, \<open>c\<close> times the float sum that
  numpy computes is at most the largest float (and an integer operand is not
  \<open>-2^63\<close>, whose absolute value wraps).
\<close>

fun den_ok :: "real \<Rightarrow> (real \<Rightarrow> real) \<Rightarrow> npval \<Rightarrow> npval \<Rightarrow> bool" where
  "den_ok c rnd (I64 a) (I64 b) = (\<bar>a\<bar> + \<bar>b\<bar> < 2 ^ 63)"
| "den_ok c rnd (I64 a) (F64 (Fin b)) =
     (\<bar>a\<bar> < 2 ^ 63 \<and> c * rnd (rnd (of_int \<bar>a\<bar>) + \<bar>b\<bar>) \<le> max_float)"
| "den_ok c rnd (F64 (Fin a)) (I64 b) =
     (\<bar>b\<bar> < 2 ^ 63 \<and> c * rnd (\<bar>a\<bar> + rnd (of_int \<bar>b\<bar>)) \<le> max_float)"
| "den_ok c rnd (F64 (Fin a)) (F64 (Fin b)) = (c * rnd (\<bar>a\<bar> + \<bar>b\<bar>) \<le> max_float)"
| "den_ok c rnd x y = False"

text \<open>The denominators of SMAPE on arrays of equal length, used to state its mask.\<close>

definition smape_den :: "(real \<Rightarrow> real) \<Rightarrow> npval list \<Rightarrow> npval list \<Rightarrow> npval list" where
  "smape_den rnd t p = map (\<lambda>i. v_add rnd (v_abs (t ! i)) (v_abs (p ! i))) [0..<length t]"

text \<open>What the proofs need of one position of SMAPE: the denominator \<open>d\<close> and the
  nominator \<open>n\<close> as floats; and the terms of the two means.\<close>

definition smape_pos :: "(real \<Rightarrow> real) \<Rightarrow> real \<Rightarrow> npval \<Rightarrow> npval \<Rightarrow> real \<Rightarrow> real \<Rightarrow> bool" where
  "smape_pos rnd c t p d n \<longleftrightarrow>
     to_float rnd (v_add rnd (v_abs t) (v_abs p)) = Fin d
   \<and> to_float rnd (v_abs (v_sub rnd t p)) = Fin n
   \<and> 0 \<le> n \<and> n \<le> d \<and> c * d \<le> max_float \<and> rnd (2 * n) = 2 * n
   \<and> (nonzero (v_add rnd (v_abs t) (v_abs p)) \<longleftrightarrow> 0 < d)
   \<and> (nonzero t \<or> nonzero p \<longrightarrow> 0 < d)
   \<and> (t = p \<longrightarrow> n = 0)"

definition smape_q :: "(real \<Rightarrow> real) \<Rightarrow> npval list \<Rightarrow> npval list \<Rightarrow> nat \<Rightarrow> f64" where
  "smape_q rnd t p i =
     f_div rnd (to_float rnd (v_double rnd (v_abs (v_sub rnd (t ! i) (p ! i)))))
       (to_float rnd (v_add rnd (v_abs (t ! i)) (v_abs (p ! i))))"

definition mape_q :: "(real \<Rightarrow> real) \<Rightarrow> npval list \<Rightarrow> npval list \<Rightarrow> nat \<Rightarrow> f64" where
  "mape_q rnd t p i =
     f_abs (f_div rnd (to_float rnd (v_sub rnd (t ! i) (p ! i))) (to_float rnd (t ! i)))"


section \<open>Tables\<close>

text \<open>
  A pandas table is kept by column: the index levels and the data columns, each a name
  with its cells, in their order. A cell is a value of the grouping column as the
  evaluation table has it (a time bucket, or a fold's cutoff timestamp), a string, or a
  number. A table with the default integer index has no index level.
\<close>

datatype 'k cell = Key 'k | Str string | Num npval

record 'k frame =
  index :: "(string \<times> 'k cell list) list"
  columns :: "(string \<times> 'k cell list) list"

text \<open>Running a fallible step over a list, stopping at the first exception.\<close>

fun mapM :: "('a \<Rightarrow> 'b option) \<Rightarrow> 'a list \<Rightarrow> 'b list option" where
  "mapM f [] = Some []"
| "mapM f (x # xs) = do { y \<leftarrow> f x; ys \<leftarrow> mapM f xs; Some (y # ys) }"

fun foldM :: "('s \<Rightarrow> 'a \<Rightarrow> 's option) \<Rightarrow> 'a list \<Rightarrow> 's \<Rightarrow> 's option" where
  "foldM f [] s = Some s"
| "foldM f (x # xs) s = do { s' \<leftarrow> f s x; foldM f xs s' }"

text \<open>\<^verbatim>\<open>df[c]\<close> (KeyError when there is no such column) and \<^verbatim>\<open>df[c] = values\<close>,
  which replaces the column where it stands or appends a new one. Every assignment of
  the module gives as many values as the table has rows.\<close>

definition get_col :: "'k frame \<Rightarrow> string \<Rightarrow> 'k cell list option" where
  "get_col df c = map_of (columns df) c"

definition set_col :: "'k frame \<Rightarrow> string \<Rightarrow> 'k cell list \<Rightarrow> 'k frame" where
  "set_col df c vs = df\<lparr>columns := AList.update c vs (columns df)\<rparr>"

text \<open>\<^verbatim>\<open>len(df)\<close>.\<close>

definition nrows :: "'k frame \<Rightarrow> nat" where
  "nrows df = (case index df @ columns df of [] \<Rightarrow> 0 | (_, c) # _ \<Rightarrow> length c)"

text \<open>\<^verbatim>\<open>df[[c1, ..., cn]]\<close>: a new table with the chosen columns, in the order asked
  for.\<close>

definition pick :: "'k frame \<Rightarrow> string list \<Rightarrow> (string \<times> 'k cell list) list option" where
  "pick df cs = mapM (\<lambda>c. map_option (\<lambda>v. (c, v)) (get_col df c)) cs"

definition select_cols :: "'k frame \<Rightarrow> string list \<Rightarrow> 'k frame option" where
  "select_cols df cs = do { sel \<leftarrow> pick df cs; Some (df\<lparr>columns := sel\<rparr>) }"

text \<open>\<^verbatim>\<open>df.set_index(names)\<close>: the named columns become the index levels and leave
  the data columns. \<^verbatim>\<open>df.reset_index()\<close> on a table with named index levels puts them
  back in front of the data columns.\<close>

definition set_index :: "'k frame \<Rightarrow> string list \<Rightarrow> 'k frame option" where
  "set_index df names =
     do {
       idx \<leftarrow> pick df names;
       Some \<lparr>index = idx, columns = filter (\<lambda>(n, _). n \<notin> set names) (columns df)\<rparr>
     }"

definition reset_index :: "'k frame \<Rightarrow> 'k frame" where
  "reset_index df = \<lparr>index = [], columns = index df @ columns df\<rparr>"

text \<open>\<^verbatim>\<open>df.rename(columns={old: new})\<close>: a new table; a missing column is ignored.\<close>

definition rename_col :: "'k frame \<Rightarrow> string \<Rightarrow> string \<Rightarrow> 'k frame" where
  "rename_col df old new = df\<lparr>columns := map (\<lambda>(n, c). (if n = old then new else n, c)) (columns df)\<rparr>"

text \<open>
  \<^verbatim>\<open>df.sort_values(by, ascending=False).reset_index(drop=True)\<close> on a column of
  strings (the module sorts a column it has just converted with \<^verbatim>\<open>astype(str)\<close>): the
  rows in descending order of the column, under the default integer index. Rows with
  equal values come in no order pandas promises; here they are the reverse of the stable
  ascending order.
\<close>

definition str_of :: "'k cell \<Rightarrow> string option" where
  "str_of c = (case c of Str s \<Rightarrow> Some s | _ \<Rightarrow> None)"

definition argsort_desc :: "string list \<Rightarrow> nat list" where
  "argsort_desc ks = rev (sort_key (\<lambda>i. ks ! i) [0..<length ks])"

definition take_rows :: "nat list \<Rightarrow> (string \<times> 'k cell list) list \<Rightarrow> (string \<times> 'k cell list) list" where
  "take_rows order cols = map (\<lambda>(n, c). (n, map (\<lambda>i. c ! i) order)) cols"

definition sort_values_desc :: "'k frame \<Rightarrow> string \<Rightarrow> 'k frame option" where
  "sort_values_desc df by =
     do {
       c \<leftarrow> get_col df by;
       ks \<leftarrow> mapM str_of c;
       Some \<lparr>index = [], columns = take_rows (argsort_desc ks) (columns df)\<rparr>
     }"

text \<open>
  \<^verbatim>\<open>df.loc[key] = values\<close> with a key that is not in the index and a row of floats: a
  new last row, and a data column of integers becomes a column of floats.
\<close>

definition upcast :: "(real \<Rightarrow> real) \<Rightarrow> 'k cell \<Rightarrow> 'k cell" where
  "upcast rnd c = (case c of Num v \<Rightarrow> Num (F64 (to_float rnd v)) | _ \<Rightarrow> c)"

definition append_row :: "(real \<Rightarrow> real) \<Rightarrow> 'k frame \<Rightarrow> 'k cell list \<Rightarrow> f64 list \<Rightarrow> 'k frame" where
  "append_row rnd df key vals =
     \<lparr>index = map2 (\<lambda>(n, c) v. (n, c @ [v])) (index df) key,
      columns = map2 (\<lambda>(n, c) v. (n, map (upcast rnd) c @ [Num (F64 v)])) (columns df) vals\<rparr>"

text \<open>
  \<^verbatim>\<open>df.mean(axis=0)\<close> and \<^verbatim>\<open>df.std(axis=0)\<close>: by column, over the cells that are not
  not-a-number (\<open>skipna\<close>), in float arithmetic. The mean is the sum divided by the
  count. The standard deviation, with \<open>ddof=1\<close>, is the square root of the sum of the
  squared differences to the mean, divided by the count less one. A column with no
  number left has mean nan; one with fewer than two has standard deviation nan. A cell
  that is not a number is a TypeError.
\<close>

definition float_of :: "(real \<Rightarrow> real) \<Rightarrow> 'k cell \<Rightarrow> f64 option" where
  "float_of rnd c = (case c of Num v \<Rightarrow> Some (to_float rnd v) | _ \<Rightarrow> None)"

fun is_nan :: "f64 \<Rightarrow> bool" where
  "is_nan NaN = True"
| "is_nan x = False"

definition skipna :: "f64 list \<Rightarrow> f64 list" where
  "skipna vs = filter (\<lambda>v. \<not> is_nan v) vs"

definition pd_mean :: "(real \<Rightarrow> real) \<Rightarrow> f64 list \<Rightarrow> f64" where
  "pd_mean rnd vs = (let xs = skipna vs in
     if xs = [] then NaN else f_div rnd (f_sum rnd xs) (Fin (real (length xs))))"

definition pd_std :: "(real \<Rightarrow> real) \<Rightarrow> f64 list \<Rightarrow> f64" where
  "pd_std rnd vs = (let xs = skipna vs; n = length xs in
     if n < 2 then NaN
     else let avg = f_div rnd (f_sum rnd xs) (Fin (real n)) in
       np_sqrt rnd (f_div rnd (f_sum rnd (map (\<lambda>x. f_square rnd (f_sub rnd avg x)) xs))
                      (Fin (real (n - 1)))))"

definition col_means :: "(real \<Rightarrow> real) \<Rightarrow> 'k frame \<Rightarrow> f64 list option" where
  "col_means rnd df = mapM (\<lambda>(n, c). map_option (pd_mean rnd) (mapM (float_of rnd) c)) (columns df)"

definition col_stds :: "(real \<Rightarrow> real) \<Rightarrow> 'k frame \<Rightarrow> f64 list option" where
  "col_stds rnd df = mapM (\<lambda>(n, c). map_option (pd_std rnd) (mapM (float_of rnd) c)) (columns df)"

section \<open>Configuration and collaborators\<close>

text \<open>
  The evaluation table, as far as this module reads it: per row the value of the
  grouping column \<^verbatim>\<open>eval['granularity']\<close> (a column other than the two it is grouped
  for), the truth and the forecast.
\<close>

record 'k eval_row =
  grp :: 'k
  truth :: npval
  forecast :: npval

record eval_config =
  granularity :: string
  metrics :: "string list"
  get_perf_on_agg_forecast :: bool

record dates_config =
  folds_horizon :: int

record resampling_config =
  freq :: string

text \<open>\<^verbatim>\<open>config['metrics']\<close>: the number of decimals of each metric.\<close>

type_synonym format_config = "string \<rightharpoonup> nat"

text \<open>
  What the module takes from elsewhere, as parameters: the time bucketing
  \<^verbatim>\<open>add_time_groupers\<close> and the conversions \<^verbatim>\<open>convert_into_nb_of_days\<close> and
  \<^verbatim>\<open>convert_into_nb_of_seconds\<close> of the repository, adding a \<^verbatim>\<open>timedelta\<close> of days or
  of seconds to a timestamp, the sum of a column over one group as pandas'
  \<^verbatim>\<open>agg('sum')\<close> computes it, the string of a timestamp and of a number under
  \<^verbatim>\<open>astype(str)\<close>, and \<^verbatim>\<open>'{:,.Nf}'.format(round(x, N))\<close>.
\<close>

record 'k ext =
  add_time_groupers :: "'k eval_row list \<Rightarrow> 'k eval_row list"
  convert_into_nb_of_days :: "char \<Rightarrow> int \<Rightarrow> int"
  convert_into_nb_of_seconds :: "char \<Rightarrow> int \<Rightarrow> int"
  plus_days :: "'k \<Rightarrow> int \<Rightarrow> 'k"
  plus_seconds :: "'k \<Rightarrow> int \<Rightarrow> 'k"
  agg_sum :: "npval list \<Rightarrow> npval"
  as_str :: "'k \<Rightarrow> string"
  num_str :: "npval \<Rightarrow> string"
  format_round :: "nat \<Rightarrow> npval \<Rightarrow> string"



section \<open>Computing the metrics\<close>

text \<open>The dictionary \<^verbatim>\<open>metrics\<close> of \<^verbatim>\<open>get_perf_metrics\<close>.\<close>

definition metrics_table ::
  "(real \<Rightarrow> real) \<Rightarrow> string \<rightharpoonup> (npval list \<Rightarrow> npval list \<Rightarrow> npval option)" where
  "metrics_table rnd = map_of
     [(''MAPE'', \<lambda>t p. Some (MAPE rnd t p)),
      (''SMAPE'', \<lambda>t p. Some (SMAPE rnd t p)),
      (''MSE'', \<lambda>t p. map_option F64 (MSE rnd t p)),
      (''RMSE'', \<lambda>t p. map_option F64 (RMSE rnd t p)),
      (''MAE'', \<lambda>t p. map_option F64 (MAE rnd t p))]"

definition preprocess_eval_df :: "'k ext \<Rightarrow> 'k eval_row list \<Rightarrow> bool \<Rightarrow> 'k eval_row list" where
  "preprocess_eval_df ext evaluation_df use_cv =
     (if use_cv then evaluation_df else add_time_groupers ext evaluation_df)"

text \<open>The groups of \<^verbatim>\<open>df.groupby(eval['granularity'])\<close>, which is also
  \<^verbatim>\<open>sorted(df[eval['granularity']].unique())\<close>: the distinct keys, ascending.\<close>

definition group_keys :: "('k::linorder) eval_row list \<Rightarrow> 'k list" where
  "group_keys df = sort (remdups (map grp df))"

definition group_rows :: "'k eval_row list \<Rightarrow> 'k \<Rightarrow> 'k eval_row list" where
  "group_rows df k = filter (\<lambda>r. grp r = k) df"

text \<open>\<^verbatim>\<open>.agg({'truth': 'sum', 'forecast': 'sum'})\<close>: the two sums of each group.\<close>

definition group_sums :: "('k::linorder) ext \<Rightarrow> 'k eval_row list \<Rightarrow> (npval \<times> npval) list" where
  "group_sums ext df =
     map (\<lambda>k. (agg_sum ext (map truth (group_rows df k)), agg_sum ext (map forecast (group_rows df k))))
       (group_keys df)"

text \<open>A row of the table of sums as \<^verbatim>\<open>apply(..., axis=1)\<close> hands it to the lambda: a
  series of one element type, so that an integer sum beside a float sum is a float.\<close>

fun row_values :: "(real \<Rightarrow> real) \<Rightarrow> npval \<times> npval \<Rightarrow> npval \<times> npval" where
  "row_values rnd (I64 a, I64 b) = (I64 a, I64 b)"
| "row_values rnd (t, f) = (F64 (to_float rnd t), F64 (to_float rnd f))"

text \<open>
  \<^verbatim>\<open>_compute_metrics\<close>. In aggregate mode each metric is applied row by row to the two
  sums, each a scalar that \<^verbatim>\<open>np.array(...).ravel()\<close> makes an array of length one. In
  the other mode it is applied to the truth and forecast columns of each group. The
  lookup \<^verbatim>\<open>metrics[m]\<close> is inside the lambda: an unknown name is a KeyError at the
  first row or group.
\<close>

definition compute_metrics ::
  "(real \<Rightarrow> real) \<Rightarrow> ('k::linorder) ext \<Rightarrow> 'k eval_row list \<Rightarrow> eval_config \<Rightarrow> 'k frame option" where
  "compute_metrics rnd ext df ev =
     (if get_perf_on_agg_forecast ev then
        foldM (\<lambda>metrics_df m.
            do {
              vals \<leftarrow> mapM (\<lambda>(t, f). do { fn \<leftarrow> metrics_table rnd m; fn [t] [f] })
                       (map (row_values rnd) (group_sums ext df));
              Some (set_col metrics_df m (map Num vals))
            })
          (metrics ev)
          \<lparr>index = [],
           columns = [(granularity ev, map Key (group_keys df)),
                      (''truth'', map (\<lambda>(t, f). Num t) (group_sums ext df)),
                      (''forecast'', map (\<lambda>(t, f). Num f) (group_sums ext df))]\<rparr>
      else
        foldM (\<lambda>metrics_df m.
            do {
              vals \<leftarrow> mapM (\<lambda>k. do { fn \<leftarrow> metrics_table rnd m;
                                       fn (map truth (group_rows df k)) (map forecast (group_rows df k)) })
                       (group_keys df);
              Some (set_col metrics_df m (map Num vals))
            })
          (metrics ev)
          \<lparr>index = [], columns = [(granularity ev, map Key (group_keys df))]\<rparr>)"

section \<open>Formatting the results\<close>

text \<open>\<^verbatim>\<open>f"Fold {i}"\<close>: the decimal digits of a natural number.\<close>

fun str_nat :: "nat \<Rightarrow> string" where
  "str_nat n = (if n < 10 then [''0123456789'' ! n]
                else str_nat (n div 10) @ [''0123456789'' ! (n mod 10)])"

declare str_nat.simps [simp del]

text \<open>\<^verbatim>\<open>x + timedelta(...)\<close> on a cell is a TypeError unless the cell is a timestamp;
  \<^verbatim>\<open>astype(str)\<close> on a cell.\<close>

definition cell_plus :: "('k \<Rightarrow> int \<Rightarrow> 'k) \<Rightarrow> int \<Rightarrow> 'k cell \<Rightarrow> 'k cell option" where
  "cell_plus add n c = (case c of Key k \<Rightarrow> Some (Key (add k n)) | _ \<Rightarrow> None)"

definition astype_str :: "'k ext \<Rightarrow> 'k cell \<Rightarrow> 'k cell" where
  "astype_str ext c =
     (case c of Key k \<Rightarrow> Str (as_str ext k) | Str s \<Rightarrow> Str s | Num x \<Rightarrow> Str (num_str ext x))"

text \<open>\<^verbatim>\<open>__format_metrics_df_cv\<close> (lines 138 to 153).\<close>

definition format_metrics_df_cv ::
  "'k ext \<Rightarrow> 'k frame \<Rightarrow> dates_config \<Rightarrow> eval_config \<Rightarrow> resampling_config \<Rightarrow> 'k frame option" where
  "format_metrics_df_cv ext metrics_df dates ev resampling =
     do {
       let metrics_df = rename_col metrics_df ''cutoff'' ''Valid Start'';
       fr \<leftarrow> (if freq resampling = [] then None else Some (last (freq resampling)));
       let horizon = folds_horizon dates;
       valid_start \<leftarrow> get_col metrics_df ''Valid Start'';
       valid_end \<leftarrow>
         (if fr \<in> {CHR ''s'', CHR ''H''}
          then mapM (cell_plus (plus_seconds ext) (convert_into_nb_of_seconds ext fr horizon)) valid_start
          else mapM (cell_plus (plus_days ext) (convert_into_nb_of_days ext fr horizon)) valid_start);
       let metrics_df = set_col metrics_df ''Valid End'' (map (astype_str ext) valid_end);
       let metrics_df = set_col metrics_df ''Valid Start'' (map (astype_str ext) valid_start);
       metrics_df \<leftarrow> sort_values_desc metrics_df ''Valid Start'';
       Some (set_col metrics_df (granularity ev)
               (map (\<lambda>i. Str (''Fold '' @ str_nat i)) [1..<nrows metrics_df + 1]))
     }"

text \<open>\<^verbatim>\<open>__add_avg_std_metrics\<close> (lines 156 to 162). The standard deviations are taken
  from the table that already has the \<open>Avg\<close> row.\<close>

definition add_avg_std_metrics :: "(real \<Rightarrow> real) \<Rightarrow> 'k frame \<Rightarrow> eval_config \<Rightarrow> 'k frame option" where
  "add_avg_std_metrics rnd metrics_df ev =
     do {
       let cols_index = [granularity ev, ''Valid Start'', ''Valid End''];
       metrics_df \<leftarrow> select_cols metrics_df (cols_index @ metrics ev);
       metrics_df \<leftarrow> set_index metrics_df cols_index;
       avg \<leftarrow> col_means rnd metrics_df;
       let metrics_df = append_row rnd metrics_df [Str ''Avg'', Str [], Str ''Average''] avg;
       std \<leftarrow> col_stds rnd metrics_df;
       let metrics_df = append_row rnd metrics_df [Str ''Std'', Str [], Str ''+/-''] std;
       set_index (reset_index metrics_df) [granularity ev]
     }"

text \<open>
  The tables live in a store, a list of tables addressed by position: selecting columns,
  \<^verbatim>\<open>set_index\<close> and the two functions above make new tables, and
  \<^verbatim>\<open>__format_metrics_values\<close> (lines 130 to 135) assigns the columns of the table it is
  given, in place. \<^verbatim>\<open>round\<close> on a cell that is not a number is a TypeError, a metric
  without a precision a KeyError.
\<close>

type_synonym 'k store = "'k frame list"

definition alloc :: "'k store \<Rightarrow> 'k frame \<Rightarrow> nat \<times> 'k store" where
  "alloc h df = (length h, h @ [df])"

definition format_cell :: "'k ext \<Rightarrow> format_config \<Rightarrow> string \<Rightarrow> 'k cell \<Rightarrow> 'k cell option" where
  "format_cell ext config c x =
     do {
       d \<leftarrow> config c;
       v \<leftarrow> (case x of Num v \<Rightarrow> Some v | _ \<Rightarrow> None);
       Some (Str (format_round ext d v))
     }"

definition format_metrics_values ::
  "'k ext \<Rightarrow> 'k store \<Rightarrow> nat \<Rightarrow> eval_config \<Rightarrow> format_config \<Rightarrow> 'k store option" where
  "format_metrics_values ext h metrics_df ev config =
     foldM (\<lambda>h c.
         do {
           cells \<leftarrow> get_col (h ! metrics_df) c;
           formatted \<leftarrow> mapM (format_cell ext config c) cells;
           Some (h[metrics_df := set_col (h ! metrics_df) c formatted])
         })
       (metrics ev) h"

text \<open>The dictionary comprehension
  \<^verbatim>\<open>{m: metrics_df[[eval['granularity'], m]] for m in eval['metrics']}\<close>.\<close>

definition build_metrics_dict ::
  "'k store \<Rightarrow> 'k frame \<Rightarrow> eval_config \<Rightarrow> ((string \<rightharpoonup> nat) \<times> 'k store) option" where
  "build_metrics_dict h metrics_df ev =
     foldM (\<lambda>(d, h) m.
         do {
           t \<leftarrow> select_cols metrics_df [granularity ev, m];
           let (r, h) = alloc h t;
           Some (d(m \<mapsto> r), h)
         })
       (metrics ev) (Map.empty, h)"

text \<open>\<^verbatim>\<open>_format_eval_results\<close> up to its last step (lines 119 to 125): the address of
  the display table, the dictionary of addresses, and the store.\<close>

definition format_eval_tables ::
  "(real \<Rightarrow> real) \<Rightarrow> 'k ext \<Rightarrow> 'k store \<Rightarrow> nat \<Rightarrow> dates_config \<Rightarrow> eval_config \<Rightarrow> resampling_config \<Rightarrow> bool
     \<Rightarrow> (nat \<times> (string \<rightharpoonup> nat) \<times> 'k store) option" where
  "format_eval_tables rnd ext h metrics_df dates ev resampling use_cv =
     (if use_cv then
        do {
          cv \<leftarrow> format_metrics_df_cv ext (h ! metrics_df) dates ev resampling;
          let (metrics_df, h) = alloc h cv;
          (metrics_dict, h) \<leftarrow> build_metrics_dict h (h ! metrics_df) ev;
          shown \<leftarrow> add_avg_std_metrics rnd (h ! metrics_df) ev;
          let (metrics_df, h) = alloc h shown;
          Some (metrics_df, metrics_dict, h)
        }
      else
        do {
          (metrics_dict, h) \<leftarrow> build_metrics_dict h (h ! metrics_df) ev;
          sel \<leftarrow> select_cols (h ! metrics_df) (granularity ev # metrics ev);
          shown \<leftarrow> set_index sel [granularity ev];
          let (metrics_df, h) = alloc h shown;
          Some (metrics_df, metrics_dict, h)
        })"

definition format_eval_results ::
  "(real \<Rightarrow> real) \<Rightarrow> 'k ext \<Rightarrow> 'k store \<Rightarrow> nat \<Rightarrow> dates_config \<Rightarrow> eval_config \<Rightarrow> resampling_config \<Rightarrow> bool
     \<Rightarrow> format_config \<Rightarrow> (nat \<times> (string \<rightharpoonup> nat) \<times> 'k store) option" where
  "format_eval_results rnd ext h metrics_df dates ev resampling use_cv config =
     do {
       (metrics_df, metrics_dict, h) \<leftarrow> format_eval_tables rnd ext h metrics_df dates ev resampling use_cv;
       h \<leftarrow> format_metrics_values ext h metrics_df ev config;
       Some (metrics_df, metrics_dict, h)
     }"

text \<open>The public entry point.\<close>

definition get_perf_metrics ::
  "(real \<Rightarrow> real) \<Rightarrow> ('k::linorder) ext \<Rightarrow> 'k store \<Rightarrow> 'k eval_row list \<Rightarrow> eval_config \<Rightarrow> dates_config
     \<Rightarrow> resampling_config \<Rightarrow> bool \<Rightarrow> format_config \<Rightarrow> (nat \<times> (string \<rightharpoonup> nat) \<times> 'k store) option" where
  "get_perf_metrics rnd ext h evaluation_df ev dates resampling use_cv config =
     do {
       let df = preprocess_eval_df ext evaluation_df use_cv;
       computed \<leftarrow> compute_metrics rnd ext df ev;
       let (metrics_df, h) = alloc h computed;
       format_eval_results rnd ext h metrics_df dates ev resampling use_cv config
     }"



section \<open>Notions for the statements, and examples\<close>

text \<open>
  The difference \<open>d\<close> of two sums is exact: between two integers it is small enough for
  its square to be a float; between two floats neither the difference nor its square is
  rounded, and the square does not overflow.
\<close>

fun exact_diff :: "(real \<Rightarrow> real) \<Rightarrow> npval \<Rightarrow> npval \<Rightarrow> real \<Rightarrow> bool" where
  "exact_diff rnd (I64 a) (I64 b) d = (d = of_int (a - b) \<and> \<bar>a - b\<bar> < 2 ^ 26)"
| "exact_diff rnd (F64 (Fin a)) (F64 (Fin b)) d =
     (d = a - b \<and> rnd d = d \<and> rnd (d * d) = d * d \<and> d * d \<le> max_float)"
| "exact_diff rnd x y d = False"

text \<open>A value that float arithmetic produces: an infinity, not-a-number, or a finite
  number that rounding leaves as it is.\<close>

fun is_float :: "(real \<Rightarrow> real) \<Rightarrow> f64 \<Rightarrow> bool" where
  "is_float rnd (Fin a) = (rnd a = a \<and> \<bar>a\<bar> \<le> max_float)"
| "is_float rnd x = True"

text \<open>A sum in exact arithmetic, and collaborators for the examples: groups named by
  strings, which are their own string, and days counted within a month.\<close>

definition exact_sum :: "npval list \<Rightarrow> npval" where
  "exact_sum vs = foldl (v_add exact) (I64 0) vs"

definition example_ext :: "string ext" where
  "example_ext =
     \<lparr>add_time_groupers = (\<lambda>df. df),
      convert_into_nb_of_days = (\<lambda>f n. n),
      convert_into_nb_of_seconds = (\<lambda>f n. n),
      plus_days = (\<lambda>k n. k @ ''+''),
      plus_seconds = (\<lambda>k n. k @ ''+''),
      agg_sum = exact_sum,
      as_str = (\<lambda>k. k),
      num_str = (\<lambda>v. ''?''),
      format_round = (\<lambda>d v. ''?'')\<rparr>"

text \<open>The example of the specification: group A with truth \<open>[10, 10]\<close> and forecast
  \<open>[10, 10]\<close>, group B with truth \<open>[0, 0]\<close> and forecast \<open>[5, 5]\<close>.\<close>

definition spec_example :: "string eval_row list" where
  "spec_example =
     [\<lparr>grp = ''A'', truth = F64 (Fin 10), forecast = F64 (Fin 10)\<rparr>,
      \<lparr>grp = ''A'', truth = F64 (Fin 10), forecast = F64 (Fin 10)\<rparr>,
      \<lparr>grp = ''B'', truth = F64 (Fin 0), forecast = F64 (Fin 5)\<rparr>,
      \<lparr>grp = ''B'', truth = F64 (Fin 0), forecast = F64 (Fin 5)\<rparr>]"

definition agg_eval :: eval_config where
  "agg_eval = \<lparr>granularity = ''bucket'', metrics = [''MAE'', ''MSE'', ''RMSE''], get_perf_on_agg_forecast = True\<rparr>"


section \<open>Properties of the error functions\<close>

lemma max_float_pos: "0 < max_float" "1 \<le> max_float"
  by (simp_all add: max_float_def)

lemma fl_exact_small: "\<bar>x\<bar> \<le> 2 ^ 64 \<Longrightarrow> fl exact x = Fin x"
proof -
  assume a: "\<bar>x\<bar> \<le> 2 ^ 64"
  have "(2::real) ^ 64 \<le> max_float" by (simp add: max_float_def)
  with a have "x \<le> max_float" "- max_float \<le> x" by linarith+
  then show ?thesis by (simp add: fl_def exact_def Let_def)
qed

lemmas eval_defs = MAPE_def MAPE_try_def SMAPE_def SMAPE_try_def MSE_def RMSE_def MAE_def
  where_nonzero_def take_idx_def broadcast2_def np_mean_def v_div_def v_double_def f_sub_def

text \<open>
  Claim C1. With every denominator zero the filtered arrays are empty, \<^verbatim>\<open>np.mean\<close> of
  an empty array is nan and raises nothing, so the handler is not entered: MAPE of truth
  \<open>[0, 0]\<close> and forecast \<open>[5, 5]\<close> is nan, and SMAPE of two all-zero arrays is nan,
  where the claim says 0, for float arrays and for integer arrays alike. The handler
  does give 0 when an exception is raised, as for truth \<open>[0, 0, 1]\<close> against a forecast
  of length one (IndexError).
\<close>

theorem MAPE_SMAPE_zero_denominators_nan:
  "MAPE exact [F64 (Fin 0), F64 (Fin 0)] [F64 (Fin 5), F64 (Fin 5)] = F64 NaN
   \<and> SMAPE exact [F64 (Fin 0), F64 (Fin 0)] [F64 (Fin 0), F64 (Fin 0)] = F64 NaN
   \<and> MAPE exact [F64 (Fin 0), F64 (Fin 0), F64 (Fin 1)] [F64 (Fin 2)] = I64 0
   \<and> MAPE rnd [I64 0, I64 0] [I64 5, I64 5] = F64 NaN
   \<and> SMAPE rnd [I64 0, I64 0] [I64 0, I64 0] = F64 NaN"
  by (simp add: eval_defs fl_exact_small wrap64_def)

text \<open>
  Where the arithmetic leaves the range of the element type, the functions return what
  numpy's wrap-around and overflow give: the square of 4000000000 wraps to a negative
  64-bit integer, so MSE is negative and RMSE is nan.
\<close>

lemma MSE_int64_wraps:
  "MSE exact [I64 4000000000] [I64 0] = Some (Fin (- 2446744073709551616))
   \<and> RMSE exact [I64 4000000000] [I64 0] = Some NaN"
  by (simp add: eval_defs fl_exact_small wrap64_def)

text \<open>
  Claim C7. On arrays of equal length MSE returns a value and RMSE returns numpy's
  square root of that value, whatever the element type and the rounding; with a shape
  mismatch both raise.
\<close>

theorem RMSE_sqrt_MSE:
  assumes len: "length y_true = length y_pred"
  shows "RMSE rnd y_true y_pred = map_option (np_sqrt rnd) (MSE rnd y_true y_pred)
       \<and> (\<exists>m. MSE rnd y_true y_pred = Some m \<and> RMSE rnd y_true y_pred = Some (np_sqrt rnd m))"
proof -
  have r: "RMSE rnd y_true y_pred = map_option (np_sqrt rnd) (MSE rnd y_true y_pred)"
    by (cases "MSE rnd y_true y_pred") (simp_all add: RMSE_def)
  from len obtain m where m: "MSE rnd y_true y_pred = Some m"
    by (simp add: MSE_def broadcast2_def)
  with r show ?thesis by simp
qed

theorem RMSE_sqrt_MSE_witness:
  "MSE exact [F64 (Fin 1), F64 (Fin 2)] [F64 (Fin 3), F64 (Fin 4)] = Some (Fin 4)
   \<and> RMSE exact [F64 (Fin 1), F64 (Fin 2)] [F64 (Fin 3), F64 (Fin 4)] = Some (Fin 2)"
proof -
  have m: "MSE exact [F64 (Fin 1), F64 (Fin 2)] [F64 (Fin 3), F64 (Fin 4)] = Some (Fin 4)"
    by (simp add: eval_defs fl_exact_small)
  have "RMSE exact [F64 (Fin 1), F64 (Fin 2)] [F64 (Fin 3), F64 (Fin 4)]
          = map_option (np_sqrt exact) (MSE exact [F64 (Fin 1), F64 (Fin 2)] [F64 (Fin 3), F64 (Fin 4)])"
    using RMSE_sqrt_MSE[of "[F64 (Fin 1), F64 (Fin 2)]" "[F64 (Fin 3), F64 (Fin 4)]" exact] by simp
  with m show ?thesis by (simp add: fl_exact_small)
qed


section \<open>Rounding and ranges\<close>

subsection \<open>Rounding\<close>

lemma rounding_exact: "rounding exact"
  by (simp add: rounding_def exact_def)

lemma rnd_mono: "rounding rnd \<Longrightarrow> x \<le> y \<Longrightarrow> rnd x \<le> rnd y"
  by (simp add: rounding_def)

lemma rnd_idem: "rounding rnd \<Longrightarrow> rnd (rnd x) = rnd x"
  by (simp add: rounding_def)

lemma rnd_neg: "rounding rnd \<Longrightarrow> rnd (- x) = - rnd x"
  by (simp add: rounding_def)

lemma rnd_double: "rounding rnd \<Longrightarrow> rnd (2 * rnd x) = 2 * rnd x"
  by (simp add: rounding_def)

lemma rnd_int: "rounding rnd \<Longrightarrow> \<bar>i\<bar> \<le> 2 ^ 53 \<Longrightarrow> rnd (of_int i) = of_int i"
  by (simp add: rounding_def)

lemma rnd_max: "rounding rnd \<Longrightarrow> rnd max_float = max_float"
  by (simp add: rounding_def)

lemma rnd_0: "rounding rnd \<Longrightarrow> rnd 0 = 0"
  using rnd_int[of rnd 0] by simp

lemma rnd_1: "rounding rnd \<Longrightarrow> rnd 1 = 1"
  using rnd_int[of rnd 1] by simp

lemma rnd_2: "rounding rnd \<Longrightarrow> rnd 2 = 2"
  using rnd_int[of rnd 2] by simp

lemma rnd_nat: "rounding rnd \<Longrightarrow> n \<le> 2 ^ 53 \<Longrightarrow> rnd (real n) = real n"
  using rnd_int[of rnd "int n"] by simp

lemma rnd_nonneg: "rounding rnd \<Longrightarrow> 0 \<le> x \<Longrightarrow> 0 \<le> rnd x"
  using rnd_mono[of rnd 0 x] by (simp add: rnd_0)

lemma rnd_abs: "rounding rnd \<Longrightarrow> rnd \<bar>x\<bar> = \<bar>rnd x\<bar>"
proof (cases "0 \<le> x")
  case True
  assume r: "rounding rnd"
  with True have "0 \<le> rnd x" by (rule rnd_nonneg[rotated])
  with True show ?thesis by simp
next
  case False
  assume r: "rounding rnd"
  from False have "0 \<le> - x" by simp
  with r have "0 \<le> rnd (- x)" by (rule rnd_nonneg)
  with r have "rnd x \<le> 0" by (simp add: rnd_neg)
  with False r show ?thesis by (simp add: rnd_neg)
qed

lemma rnd_in_range: "rounding rnd \<Longrightarrow> \<bar>x\<bar> \<le> max_float \<Longrightarrow> \<bar>rnd x\<bar> \<le> max_float"
proof -
  assume r: "rounding rnd" and x: "\<bar>x\<bar> \<le> max_float"
  from r x have "rnd \<bar>x\<bar> \<le> rnd max_float" by (rule rnd_mono)
  with r show ?thesis by (simp add: rnd_abs rnd_max)
qed

lemma fl_Fin: "\<bar>rnd x\<bar> \<le> max_float \<Longrightarrow> fl rnd x = Fin (rnd x)"
  by (auto simp: fl_def Let_def)

lemma fl_in_range: "rounding rnd \<Longrightarrow> \<bar>x\<bar> \<le> max_float \<Longrightarrow> fl rnd x = Fin (rnd x)"
  by (simp add: fl_Fin rnd_in_range)

lemma fl_not_NaN: "fl rnd x \<noteq> NaN"
  by (simp add: fl_def Let_def)

lemma fl_nonneg_cases: "0 \<le> rnd x \<Longrightarrow> fl rnd x = PInf \<or> fl rnd x = Fin (rnd x)"
  using max_float_pos by (auto simp: fl_def Let_def)

lemma two63_le_max: "(2::real) ^ 64 \<le> max_float"
  by (simp add: max_float_def)

lemma rnd_pow2: "rounding rnd \<Longrightarrow> rnd (2 ^ 53 * 2 ^ k) = 2 ^ 53 * 2 ^ k"
proof (induction k)
  case 0
  then show ?case using rnd_int[of rnd "2 ^ 53"] by simp
next
  case (Suc k)
  let ?x = "(2::real) ^ 53 * 2 ^ k"
  have ih: "rnd ?x = ?x" by (rule Suc.IH[OF Suc.prems])
  have "rnd (2 * rnd ?x) = 2 * rnd ?x" using Suc.prems by (rule rnd_double)
  then have "rnd (2 * ?x) = 2 * ?x" unfolding ih .
  moreover have "(2::real) ^ 53 * 2 ^ Suc k = 2 * ?x" by simp
  ultimately show ?case by (simp only:)
qed

lemma rnd_2_63: "rounding rnd \<Longrightarrow> rnd 9223372036854775808 = 9223372036854775808"
  using rnd_pow2[of rnd 10] by simp

lemma wrap64_id: "- (2 ^ 63) \<le> i \<Longrightarrow> i < 2 ^ 63 \<Longrightarrow> wrap64 i = i"
  by (simp add: wrap64_def)

lemma int_to_float:
  assumes r: "rounding rnd" and i: "\<bar>i\<bar> \<le> 2 ^ 63"
  shows "to_float rnd (I64 i) = Fin (rnd (of_int i))" "\<bar>rnd (of_int i)\<bar> \<le> 2 ^ 63"
proof -
  from i have "\<bar>real_of_int i\<bar> \<le> 2 ^ 63"
    by (metis of_int_abs of_int_le_numeral_power_cancel_iff)
  then have "rnd \<bar>real_of_int i\<bar> \<le> rnd (2 ^ 63)" using r by (rule rnd_mono[rotated])
  then show b: "\<bar>rnd (of_int i)\<bar> \<le> 2 ^ 63" using r by (simp add: rnd_abs rnd_2_63)
  have "(2::real) ^ 63 \<le> max_float" by (simp add: max_float_def)
  with b have "\<bar>rnd (of_int i)\<bar> \<le> max_float" by linarith
  then show "to_float rnd (I64 i) = Fin (rnd (of_int i))" by (simp add: fl_Fin)
qed


subsection \<open>One position of SMAPE\<close>

lemma smape_pos_II:
  assumes r: "rounding rnd" and ok: "\<bar>a\<bar> + \<bar>b\<bar> < 2 ^ 63" and c: "1 \<le> c" "c \<le> 2"
  shows "\<exists>d n. smape_pos rnd c (I64 a) (I64 b) d n"
proof -
  define k where "k = \<bar>a\<bar> + \<bar>b\<bar>"
  define m where "m = \<bar>a - b\<bar>"
  define d where "d = rnd (of_int k)"
  define n where "n = rnd (of_int m)"
  have k: "0 \<le> k" "k < 2 ^ 63" and m: "0 \<le> m" "m \<le> k" using ok by (auto simp: k_def m_def)
  have wa: "wrap64 \<bar>a\<bar> = \<bar>a\<bar>" and wb: "wrap64 \<bar>b\<bar> = \<bar>b\<bar>" and wk: "wrap64 (\<bar>a\<bar> + \<bar>b\<bar>) = k"
    using ok by (auto simp: k_def intro!: wrap64_id)
  have ws: "wrap64 (a - b) = a - b" and wn: "wrap64 \<bar>a - b\<bar> = m"
    using ok by (auto simp: m_def intro!: wrap64_id)
  have den: "v_add rnd (v_abs (I64 a)) (v_abs (I64 b)) = I64 k" by (simp add: wa wb wk)
  have nom: "v_abs (v_sub rnd (I64 a) (I64 b)) = I64 m" by (simp add: ws wn)
  have k63: "\<bar>k\<bar> \<le> 2 ^ 63" and n63: "\<bar>m\<bar> \<le> 2 ^ 63" using k m by auto
  note dk = int_to_float[OF r k63, folded d_def] and dn = int_to_float[OF r n63, folded n_def]
  have n0: "0 \<le> n" unfolding n_def using r m by (simp add: rnd_nonneg)
  have d0: "0 \<le> d" unfolding d_def using r k by (simp add: rnd_nonneg)
  have "real_of_int m \<le> real_of_int k" using m by simp
  then have nd: "n \<le> d" unfolding n_def d_def using r by (rule rnd_mono[rotated])
  have "c * d \<le> 2 * 2 ^ 63" using dk(2) d0 c by (intro mult_mono) auto
  then have cd: "c * d \<le> max_float" using two63_le_max by simp
  have dbl: "rnd (2 * n) = 2 * n" unfolding n_def using r by (rule rnd_double)
  have pos: "0 < d" if "k \<noteq> 0"
  proof -
    from that k have "1 \<le> k" by linarith
    then have "(1::real) \<le> of_int k" by simp
    then have "rnd 1 \<le> d" unfolding d_def using r by (rule rnd_mono[rotated])
    then show ?thesis using r by (simp add: rnd_1)
  qed
  have zero: "d = 0" if "k = 0" unfolding d_def using that r by (simp add: rnd_0)
  have nz: "nonzero (I64 k) \<longleftrightarrow> 0 < d" using pos zero by (cases "k = 0") auto
  have "k \<noteq> 0" if "a \<noteq> 0 \<or> b \<noteq> 0" using that by (auto simp: k_def)
  then have nz2: "nonzero (I64 a) \<or> nonzero (I64 b) \<longrightarrow> 0 < d" using pos by auto
  have "m = 0" if "a = b" using that by (simp add: m_def)
  then have eq: "I64 a = I64 b \<longrightarrow> n = 0" unfolding n_def using r by (auto simp: rnd_0)
  show ?thesis
    unfolding smape_pos_def den nom
    using dk(1) dn(1) n0 nd cd dbl nz nz2 eq by blast
qed

lemma smape_pos_FF:
  assumes r: "rounding rnd" and a: "rnd a = a" and b: "rnd b = b"
    and ok: "c * rnd (\<bar>a\<bar> + \<bar>b\<bar>) \<le> max_float" and c: "1 \<le> c" "c \<le> 2"
  shows "\<exists>d n. smape_pos rnd c (F64 (Fin a)) (F64 (Fin b)) d n"
proof -
  let ?d = "rnd (\<bar>a\<bar> + \<bar>b\<bar>)" and ?n = "\<bar>rnd (a - b)\<bar>"
  have d0: "0 \<le> ?d" using r by (simp add: rnd_nonneg)
  have "1 * ?d \<le> c * ?d" using c d0 by (intro mult_right_mono) auto
  with ok have dmax: "\<bar>?d\<bar> \<le> max_float" using d0 by simp
  have den: "v_add rnd (v_abs (F64 (Fin a))) (v_abs (F64 (Fin b))) = F64 (Fin ?d)"
    using dmax by (simp add: fl_Fin)
  have "rnd \<bar>a - b\<bar> \<le> ?d" using r by (rule rnd_mono) linarith
  then have nd: "?n \<le> ?d" using r by (simp add: rnd_abs)
  then have "\<bar>rnd (a - b)\<bar> \<le> max_float" using dmax d0 by linarith
  then have nom: "v_abs (v_sub rnd (F64 (Fin a)) (F64 (Fin b))) = F64 (Fin ?n)"
    by (simp add: f_sub_def fl_Fin)
  have "rnd (2 * rnd \<bar>a - b\<bar>) = 2 * rnd \<bar>a - b\<bar>" using r by (rule rnd_double)
  then have dbl: "rnd (2 * ?n) = 2 * ?n" using r by (simp add: rnd_abs)
  have pa: "0 < ?d" if "a \<noteq> 0"
  proof -
    have "rnd \<bar>a\<bar> \<le> ?d" using r by (rule rnd_mono) linarith
    then show ?thesis using r a that by (simp add: rnd_abs)
  qed
  have pb: "0 < ?d" if "b \<noteq> 0"
  proof -
    have "rnd \<bar>b\<bar> \<le> ?d" using r by (rule rnd_mono) linarith
    then show ?thesis using r b that by (simp add: rnd_abs)
  qed
  have nz: "nonzero (F64 (Fin ?d)) \<longleftrightarrow> 0 < ?d" using d0 by auto
  have nz2: "nonzero (F64 (Fin a)) \<or> nonzero (F64 (Fin b)) \<longrightarrow> 0 < ?d" using pa pb by auto
  have eq: "F64 (Fin a) = F64 (Fin b) \<longrightarrow> ?n = 0" using r by (auto simp: rnd_0)
  have n0: "0 \<le> ?n" by simp
  show ?thesis
    unfolding smape_pos_def den nom
    using n0 nd ok dbl nz nz2 eq by (intro exI[of _ ?d] exI[of _ ?n]) simp
qed

lemma smape_pos_IF:
  assumes r: "rounding rnd" and a: "\<bar>a\<bar> < 2 ^ 63" and b: "rnd b = b"
    and ok: "c * rnd (rnd (of_int \<bar>a\<bar>) + \<bar>b\<bar>) \<le> max_float" and c: "1 \<le> c" "c \<le> 2"
  shows "\<exists>d n. smape_pos rnd c (I64 a) (F64 (Fin b)) d n"
proof -
  define x where "x = rnd (of_int \<bar>a\<bar>)"
  define d where "d = rnd (x + \<bar>b\<bar>)"
  define n where "n = \<bar>rnd (rnd (of_int a) - b)\<bar>"
  have wa: "wrap64 \<bar>a\<bar> = \<bar>a\<bar>" using a by (auto intro!: wrap64_id)
  have a63: "\<bar>\<bar>a\<bar>\<bar> \<le> 2 ^ 63" and a63': "\<bar>a\<bar> \<le> 2 ^ 63" using a by auto
  note fa = int_to_float[OF r a63, folded x_def] and fa' = int_to_float[OF r a63']
  have x0: "0 \<le> x" unfolding x_def using r by (simp add: rnd_nonneg)
  have xabs: "\<bar>rnd (of_int a)\<bar> = x"
    unfolding x_def using rnd_abs[OF r, of "of_int a"] by simp
  have d0: "0 \<le> d" unfolding d_def using r x0 by (simp add: rnd_nonneg)
  have "1 * d \<le> c * d" using c d0 by (intro mult_right_mono) auto
  with ok have dmax: "\<bar>d\<bar> \<le> max_float" using d0 by (simp add: d_def x_def)
  have den: "v_add rnd (v_abs (I64 a)) (v_abs (F64 (Fin b))) = F64 (Fin d)"
  proof -
    have "v_add rnd (v_abs (I64 a)) (v_abs (F64 (Fin b)))
            = F64 (f_add rnd (to_float rnd (I64 \<bar>a\<bar>)) (Fin \<bar>b\<bar>))"
      by (simp add: wa del: to_float.simps(1))
    also have "\<dots> = F64 (fl rnd (x + \<bar>b\<bar>))" by (simp only: fa(1) f_add.simps)
    also have "\<dots> = F64 (Fin d)" using dmax by (simp add: fl_Fin d_def)
    finally show ?thesis .
  qed
  have "\<bar>rnd (of_int a) - b\<bar> \<le> x + \<bar>b\<bar>" using xabs by linarith
  then have "rnd \<bar>rnd (of_int a) - b\<bar> \<le> d" unfolding d_def using r by (rule rnd_mono[rotated])
  then have nd: "n \<le> d" unfolding n_def using r by (simp add: rnd_abs)
  then have "\<bar>rnd (rnd (of_int a) - b)\<bar> \<le> max_float" using dmax d0 by (simp add: n_def)
  then have "fl rnd (rnd (of_int a) - b) = Fin (rnd (rnd (of_int a) - b))" by (rule fl_Fin)
  moreover have "v_sub rnd (I64 a) (F64 (Fin b)) = F64 (f_sub rnd (to_float rnd (I64 a)) (Fin b))"
    by (simp del: to_float.simps(1))
  ultimately have nom: "v_abs (v_sub rnd (I64 a) (F64 (Fin b))) = F64 (Fin n)"
    by (simp add: fa'(1) f_sub_def n_def del: to_float.simps(1))
  have "rnd (2 * rnd \<bar>rnd (of_int a) - b\<bar>) = 2 * rnd \<bar>rnd (of_int a) - b\<bar>"
    using r by (rule rnd_double)
  then have dbl: "rnd (2 * n) = 2 * n" unfolding n_def using r by (simp add: rnd_abs)
  have pa: "0 < d" if "a \<noteq> 0"
  proof -
    from that have "(1::real) \<le> of_int \<bar>a\<bar>" by (simp only: of_int_1_le_iff)
    then have "rnd 1 \<le> x" unfolding x_def using r by (rule rnd_mono[rotated])
    then have "1 \<le> x + \<bar>b\<bar>" using r by (simp add: rnd_1)
    then have "rnd 1 \<le> d" unfolding d_def using r by (rule rnd_mono[rotated])
    then show ?thesis using r by (simp add: rnd_1)
  qed
  have pb: "0 < d" if "b \<noteq> 0"
  proof -
    have "\<bar>b\<bar> \<le> x + \<bar>b\<bar>" using x0 by simp
    then have "rnd \<bar>b\<bar> \<le> d" unfolding d_def using r by (rule rnd_mono[rotated])
    then show ?thesis using r b that by (simp add: rnd_abs)
  qed
  have nz: "nonzero (F64 (Fin d)) \<longleftrightarrow> 0 < d" using d0 by auto
  have nz2: "nonzero (I64 a) \<or> nonzero (F64 (Fin b)) \<longrightarrow> 0 < d" using pa pb by auto
  have n0: "0 \<le> n" by (simp add: n_def)
  have cd: "c * d \<le> max_float" using ok by (simp add: d_def x_def)
  show ?thesis
    unfolding smape_pos_def den nom
    using n0 nd cd dbl nz nz2 by (intro exI[of _ d] exI[of _ n]) simp
qed

lemma smape_pos_FI:
  assumes r: "rounding rnd" and a: "rnd a = a" and b: "\<bar>b\<bar> < 2 ^ 63"
    and ok: "c * rnd (\<bar>a\<bar> + rnd (of_int \<bar>b\<bar>)) \<le> max_float" and c: "1 \<le> c" "c \<le> 2"
  shows "\<exists>d n. smape_pos rnd c (F64 (Fin a)) (I64 b) d n"
proof -
  define x where "x = rnd (of_int \<bar>b\<bar>)"
  define d where "d = rnd (\<bar>a\<bar> + x)"
  define n where "n = \<bar>rnd (a - rnd (of_int b))\<bar>"
  have wb: "wrap64 \<bar>b\<bar> = \<bar>b\<bar>" using b by (auto intro!: wrap64_id)
  have b63: "\<bar>\<bar>b\<bar>\<bar> \<le> 2 ^ 63" and b63': "\<bar>b\<bar> \<le> 2 ^ 63" using b by auto
  note fb = int_to_float[OF r b63, folded x_def] and fb' = int_to_float[OF r b63']
  have x0: "0 \<le> x" unfolding x_def using r by (simp add: rnd_nonneg)
  have xabs: "\<bar>rnd (of_int b)\<bar> = x"
    unfolding x_def using rnd_abs[OF r, of "of_int b"] by simp
  have d0: "0 \<le> d" unfolding d_def using r x0 by (simp add: rnd_nonneg)
  have "1 * d \<le> c * d" using c d0 by (intro mult_right_mono) auto
  with ok have dmax: "\<bar>d\<bar> \<le> max_float" using d0 by (simp add: d_def x_def)
  have den: "v_add rnd (v_abs (F64 (Fin a))) (v_abs (I64 b)) = F64 (Fin d)"
  proof -
    have "v_add rnd (v_abs (F64 (Fin a))) (v_abs (I64 b))
            = F64 (f_add rnd (Fin \<bar>a\<bar>) (to_float rnd (I64 \<bar>b\<bar>)))"
      by (simp add: wb del: to_float.simps(1))
    also have "\<dots> = F64 (fl rnd (\<bar>a\<bar> + x))" by (simp only: fb(1) f_add.simps)
    also have "\<dots> = F64 (Fin d)" using dmax by (simp add: fl_Fin d_def)
    finally show ?thesis .
  qed
  have "\<bar>a - rnd (of_int b)\<bar> \<le> \<bar>a\<bar> + x" using xabs by linarith
  then have "rnd \<bar>a - rnd (of_int b)\<bar> \<le> d" unfolding d_def using r by (rule rnd_mono[rotated])
  then have nd: "n \<le> d" unfolding n_def using r by (simp add: rnd_abs)
  then have "\<bar>rnd (a - rnd (of_int b))\<bar> \<le> max_float" using dmax d0 by (simp add: n_def)
  then have "fl rnd (a - rnd (of_int b)) = Fin (rnd (a - rnd (of_int b)))" by (rule fl_Fin)
  moreover have "v_sub rnd (F64 (Fin a)) (I64 b) = F64 (f_sub rnd (Fin a) (to_float rnd (I64 b)))"
    by (simp del: to_float.simps(1))
  ultimately have nom: "v_abs (v_sub rnd (F64 (Fin a)) (I64 b)) = F64 (Fin n)"
    by (simp add: fb'(1) f_sub_def n_def del: to_float.simps(1))
  have "rnd (2 * rnd \<bar>a - rnd (of_int b)\<bar>) = 2 * rnd \<bar>a - rnd (of_int b)\<bar>"
    using r by (rule rnd_double)
  then have dbl: "rnd (2 * n) = 2 * n" unfolding n_def using r by (simp add: rnd_abs)
  have pb: "0 < d" if "b \<noteq> 0"
  proof -
    from that have "(1::real) \<le> of_int \<bar>b\<bar>" by (simp only: of_int_1_le_iff)
    then have "rnd 1 \<le> x" unfolding x_def using r by (rule rnd_mono[rotated])
    then have "1 \<le> \<bar>a\<bar> + x" using r by (simp add: rnd_1)
    then have "rnd 1 \<le> d" unfolding d_def using r by (rule rnd_mono[rotated])
    then show ?thesis using r by (simp add: rnd_1)
  qed
  have pa: "0 < d" if "a \<noteq> 0"
  proof -
    have "\<bar>a\<bar> \<le> \<bar>a\<bar> + x" using x0 by simp
    then have "rnd \<bar>a\<bar> \<le> d" unfolding d_def using r by (rule rnd_mono[rotated])
    then show ?thesis using r a that by (simp add: rnd_abs)
  qed
  have nz: "nonzero (F64 (Fin d)) \<longleftrightarrow> 0 < d" using d0 by auto
  have nz2: "nonzero (F64 (Fin a)) \<or> nonzero (I64 b) \<longrightarrow> 0 < d" using pa pb by auto
  have n0: "0 \<le> n" by (simp add: n_def)
  have cd: "c * d \<le> max_float" using ok by (simp add: d_def x_def)
  show ?thesis
    unfolding smape_pos_def den nom
    using n0 nd cd dbl nz nz2 by (intro exI[of _ d] exI[of _ n]) simp
qed

lemma smape_pos_ex:
  assumes r: "rounding rnd" and t: "is_num rnd t" and p: "is_num rnd p"
    and ok: "den_ok c rnd t p" and c: "1 \<le> c" "c \<le> 2"
  shows "\<exists>d n. smape_pos rnd c t p d n"
proof (cases t)
  case (I64 a)
  note ta = this
  show ?thesis
  proof (cases p)
    case (I64 b)
    then show ?thesis using ta ok r c by (auto intro: smape_pos_II)
  next
    case (F64 y)
    then obtain b where "y = Fin b" using p by (cases y) auto
    then show ?thesis using F64 ta ok r c p by (auto intro: smape_pos_IF)
  qed
next
  case (F64 x)
  then obtain a where xa: "x = Fin a" using t by (cases x) auto
  show ?thesis
  proof (cases p)
    case (I64 b)
    then show ?thesis using F64 xa ok r c t by (auto intro: smape_pos_FI)
  next
    case (F64 y)
    note py = this
    then obtain b where "y = Fin b" using p by (cases y) auto
    then show ?thesis using py \<open>t = F64 x\<close> xa ok r c t p by (auto intro: smape_pos_FF)
  qed
qed




subsection \<open>Arrays of equal length\<close>

lemma map2_same: "map2 f (map g xs) (map h xs) = map (\<lambda>i. f (g i) (h i)) xs"
  by (induction xs) auto

lemma broadcast2_same: "broadcast2 f (map g xs) (map h xs) = Some (map (\<lambda>i. f (g i) (h i)) xs)"
  by (simp add: broadcast2_def map2_same)

lemma broadcast2_eq_len:
  "length xs = length ys \<Longrightarrow> broadcast2 f xs ys = Some (map (\<lambda>i. f (xs ! i) (ys ! i)) [0..<length xs])"
  by (auto simp: broadcast2_def intro!: nth_equalityI)

lemma set_where_nonzero: "set (where_nonzero a) = {i. i < length a \<and> nonzero (a ! i)}"
  by (auto simp: where_nonzero_def)

lemma where_nonzero_nonempty: "i < length a \<Longrightarrow> nonzero (a ! i) \<Longrightarrow> where_nonzero a \<noteq> []"
proof -
  assume "i < length a" "nonzero (a ! i)"
  then have "i \<in> set (where_nonzero a)" by (simp add: set_where_nonzero)
  then show ?thesis by auto
qed

lemma take_idx_where:
  "length b = length a \<Longrightarrow> take_idx b (where_nonzero a) = Some (map (\<lambda>i. b ! i) (where_nonzero a))"
  by (simp add: take_idx_def set_where_nonzero)

lemma MAPE_try_eq:
  assumes "length y_true = length y_pred"
  shows "MAPE_try rnd y_true y_pred =
    Some (np_mean rnd (map (\<lambda>i. v_abs (v_div rnd (v_sub rnd (y_true ! i) (y_pred ! i)) (y_true ! i)))
       (where_nonzero y_true)))"
  using assms by (simp add: MAPE_try_def take_idx_where broadcast2_same comp_def)

lemma SMAPE_try_eq:
  assumes "length y_true = length y_pred"
  shows "SMAPE_try rnd y_true y_pred =
    Some (np_mean rnd (map (\<lambda>i. v_div rnd (v_double rnd (v_abs (v_sub rnd (y_true ! i) (y_pred ! i))))
                                  (v_add rnd (v_abs (y_true ! i)) (v_abs (y_pred ! i))))
       (where_nonzero (smape_den rnd y_true y_pred))))"
proof -
  have s: "broadcast2 (v_add rnd) (map v_abs y_true) (map v_abs y_pred) = Some (smape_den rnd y_true y_pred)"
    using assms by (simp add: broadcast2_eq_len smape_den_def)
  have l: "length (smape_den rnd y_true y_pred) = length y_true" by (simp add: smape_den_def)
  show ?thesis
    unfolding SMAPE_try_def s
    using assms l by (simp add: take_idx_where broadcast2_same comp_def)
qed

subsection \<open>Means of non-negative and of bounded terms\<close>

lemma np_mean_F64:
  "np_mean rnd (map (\<lambda>i. F64 (g i)) js) =
     (if js = [] then NaN else f_div rnd (f_sum rnd (map g js)) (Fin (real (length js))))"
  by (simp add: np_mean_def comp_def)

lemma fl_nonneg: "rounding rnd \<Longrightarrow> 0 \<le> x \<Longrightarrow> nonneg (F64 (fl rnd x))"
proof -
  assume r: "rounding rnd" and x: "0 \<le> x"
  then have "0 \<le> rnd x" by (rule rnd_nonneg)
  then show ?thesis using max_float_pos by (auto simp: fl_def Let_def)
qed

lemma f_add_nonneg:
  assumes r: "rounding rnd" and x: "nonneg (F64 x)" and y: "nonneg (F64 y)"
  shows "nonneg (F64 (f_add rnd x y))"
  using x y by (cases x; cases y) (auto intro: fl_nonneg[OF r])

lemma foldl_f_add_nonneg:
  assumes r: "rounding rnd"
  shows "nonneg (F64 s) \<Longrightarrow> \<forall>y \<in> set ys. nonneg (F64 y) \<Longrightarrow> nonneg (F64 (foldl (f_add rnd) s ys))"
proof (induction ys arbitrary: s)
  case Nil
  then show ?case by simp
next
  case (Cons y ys)
  have "nonneg (F64 (f_add rnd s y))" using r Cons.prems by (auto intro: f_add_nonneg)
  then show ?case using Cons by simp
qed

lemma f_sum_nonneg:
  assumes r: "rounding rnd" and "\<forall>y \<in> set ys. nonneg (F64 y)"
  shows "nonneg (F64 (f_sum rnd ys))"
  using assms(2) by (cases ys) (auto intro: foldl_f_add_nonneg[OF r])

lemma f_div_nonneg:
  assumes r: "rounding rnd" and x: "nonneg (F64 x)" and n: "0 < n"
  shows "nonneg (F64 (f_div rnd x (Fin n)))"
proof (cases x)
  case (Fin a)
  then have "0 \<le> a / n" using x n by simp
  then show ?thesis using Fin n by (auto intro: fl_nonneg[OF r])
qed (use x n in auto)

lemma np_mean_nonneg:
  assumes r: "rounding rnd" and ne: "js \<noteq> []" and nn: "\<forall>i \<in> set js. nonneg (F64 (g i))"
  shows "nonneg (F64 (np_mean rnd (map (\<lambda>i. F64 (g i)) js)))"
proof -
  have "nonneg (F64 (f_sum rnd (map g js)))" using nn by (intro f_sum_nonneg[OF r]) auto
  moreover have "0 < real (length js)" using ne by simp
  ultimately show ?thesis unfolding np_mean_F64 using ne by (simp add: f_div_nonneg[OF r])
qed

lemma fl_zero: "rounding rnd \<Longrightarrow> fl rnd 0 = Fin 0"
  using max_float_pos by (simp add: fl_def rnd_0 Let_def)

lemma foldl_f_add_zero:
  assumes r: "rounding rnd"
  shows "\<forall>y \<in> set ys. y = Fin 0 \<Longrightarrow> foldl (f_add rnd) (Fin 0) ys = Fin 0"
  by (induction ys) (auto simp: fl_zero[OF r])

lemma np_mean_zero:
  assumes r: "rounding rnd" and ne: "js \<noteq> []" and z: "\<forall>i \<in> set js. g i = Fin 0"
  shows "np_mean rnd (map (\<lambda>i. F64 (g i)) js) = Fin 0"
proof -
  obtain j js' where js: "js = j # js'" using ne by (cases js) auto
  have "f_sum rnd (map g js) = foldl (f_add rnd) (Fin 0) (map g js')"
    using z by (simp add: js)
  also have "\<dots> = Fin 0" using z by (intro foldl_f_add_zero[OF r]) (auto simp: js)
  finally have "f_sum rnd (map g js) = Fin 0" .
  then show ?thesis unfolding np_mean_F64 using ne by (simp add: fl_zero[OF r])
qed

lemma two53_le_max: "(2::real) ^ 53 \<le> max_float"
  by (simp add: max_float_def)

lemma foldl_f_add_bound:
  assumes r: "rounding rnd"
  shows "0 \<le> s \<Longrightarrow> s \<le> 2 * real k \<Longrightarrow> \<forall>y \<in> set ys. \<exists>x. y = Fin x \<and> 0 \<le> x \<and> x \<le> 2
     \<Longrightarrow> k + length ys \<le> 2 ^ 52
     \<Longrightarrow> \<exists>s'. foldl (f_add rnd) (Fin s) ys = Fin s' \<and> 0 \<le> s' \<and> s' \<le> 2 * real (k + length ys)"
proof (induction ys arbitrary: s k)
  case Nil
  then show ?case by simp
next
  case (Cons y ys)
  from Cons.prems(3) obtain x where y: "y = Fin x" and x: "0 \<le> x" "x \<le> 2" by auto
  have k: "2 * Suc k \<le> 2 ^ 53" using Cons.prems(4) by simp
  have lo: "0 \<le> rnd (s + x)" using r Cons.prems(1) x by (simp add: rnd_nonneg)
  have "s + x \<le> real (2 * Suc k)" using Cons.prems(2) x by simp
  then have "rnd (s + x) \<le> rnd (real (2 * Suc k))" using r by (rule rnd_mono[rotated])
  then have hi: "rnd (s + x) \<le> 2 * real (Suc k)" using rnd_nat[OF r k] by simp
  have "real (2 * Suc k) \<le> 2 ^ 53" using k by (metis of_nat_le_iff of_nat_numeral of_nat_power)
  then have "rnd (s + x) \<le> max_float" using hi two53_le_max by simp
  then have step: "f_add rnd (Fin s) y = Fin (rnd (s + x))" using lo y by (simp add: fl_Fin)
  have "\<exists>s'. foldl (f_add rnd) (Fin (rnd (s + x))) ys = Fin s' \<and> 0 \<le> s' \<and> s' \<le> 2 * real (Suc k + length ys)"
    using Cons.prems(3,4) lo hi by (intro Cons.IH) auto
  then show ?case by (simp add: step)
qed

lemma np_mean_bounds:
  assumes r: "rounding rnd" and ne: "js \<noteq> []" and len: "length js \<le> 2 ^ 52"
    and b: "\<forall>i \<in> set js. \<exists>x. g i = Fin x \<and> 0 \<le> x \<and> x \<le> 2"
  shows "\<exists>v. np_mean rnd (map (\<lambda>i. F64 (g i)) js) = Fin v \<and> 0 \<le> v \<and> v \<le> 2"
proof -
  obtain j js' where js: "js = j # js'" using ne by (cases js) auto
  from b js obtain x where x: "g j = Fin x" "0 \<le> x" "x \<le> 2" by auto
  have "\<exists>s'. foldl (f_add rnd) (Fin x) (map g js') = Fin s' \<and> 0 \<le> s' \<and> s' \<le> 2 * real (1 + length (map g js'))"
    using x b len by (intro foldl_f_add_bound[OF r]) (auto simp: js)
  then obtain S where S: "f_sum rnd (map g js) = Fin S" "0 \<le> S" "S \<le> 2 * real (length js)"
    by (auto simp: js x)
  let ?n = "real (length js)"
  have n: "0 < ?n" using ne by simp
  have q: "0 \<le> S / ?n" "S / ?n \<le> 2" using S n by (simp_all add: pos_divide_le_eq)
  have lo: "0 \<le> rnd (S / ?n)" using r q by (simp add: rnd_nonneg)
  have "rnd (S / ?n) \<le> rnd 2" using r q by (simp add: rnd_mono)
  then have hi: "rnd (S / ?n) \<le> 2" using r by (simp add: rnd_2)
  have "(2::real) \<le> max_float" by (simp add: max_float_def)
  with hi lo have "fl rnd (S / ?n) = Fin (rnd (S / ?n))" by (intro fl_Fin) simp
  then show ?thesis unfolding np_mean_F64 using ne S n lo hi by simp
qed


subsection \<open>The terms of MAPE and SMAPE\<close>

lemma num_to_float:
  assumes r: "rounding rnd" and t: "is_num rnd t"
  shows "\<exists>b. to_float rnd t = Fin b \<and> (nonzero t \<longrightarrow> b \<noteq> 0)"
proof (cases t)
  case (I64 i)
  then have i: "\<bar>i\<bar> \<le> 2 ^ 63" using t by auto
  note f = int_to_float[OF r i]
  have "rnd (of_int i) \<noteq> 0" if "i \<noteq> 0"
  proof -
    from that have "(1::real) \<le> \<bar>of_int i\<bar>" by (simp only: of_int_abs[symmetric] of_int_1_le_iff)
    then have "rnd 1 \<le> rnd \<bar>of_int i\<bar>" using r by (rule rnd_mono[rotated])
    then have "1 \<le> \<bar>rnd (of_int i)\<bar>" using r by (simp add: rnd_1 rnd_abs)
    then show ?thesis by auto
  qed
  then show ?thesis using I64 f(1) by auto
next
  case (F64 x)
  then show ?thesis using t by (cases x) auto
qed

lemma v_sub_not_NaN:
  assumes r: "rounding rnd" and t: "is_num rnd t" and p: "is_num rnd p"
  shows "to_float rnd (v_sub rnd t p) \<noteq> NaN"
proof -
  from num_to_float[OF r t] obtain a where a: "to_float rnd t = Fin a" by blast
  from num_to_float[OF r p] obtain b where b: "to_float rnd p = Fin b" by blast
  show ?thesis
  proof (cases "\<exists>i j. t = I64 i \<and> p = I64 j")
    case True
    then show ?thesis by (auto simp: fl_not_NaN)
  next
    case False
    then have "v_sub rnd t p = F64 (f_sub rnd (to_float rnd t) (to_float rnd p))"
      by (cases t; cases p) (simp_all del: to_float.simps)
    then have "to_float rnd (v_sub rnd t p) = fl rnd (a - b)"
      by (simp add: a b f_sub_def del: to_float.simps(1))
    then show ?thesis by (simp only: fl_not_NaN not_False_eq_True)
  qed
qed

lemma v_sub_self:
  assumes r: "rounding rnd" and t: "is_num rnd t"
  shows "to_float rnd (v_sub rnd t t) = Fin 0"
proof (cases t)
  case (I64 i)
  then show ?thesis by (simp add: wrap64_def fl_zero[OF r])
next
  case (F64 x)
  then obtain a where "x = Fin a" using t by (cases x) auto
  then show ?thesis using F64 by (simp add: f_sub_def fl_zero[OF r])
qed

lemma f_div_not_NaN: "x \<noteq> NaN \<Longrightarrow> b \<noteq> 0 \<Longrightarrow> f_div rnd x (Fin b) \<noteq> NaN"
  by (cases x) (auto simp: fl_not_NaN)

lemma f_abs_nonneg: "x \<noteq> NaN \<Longrightarrow> nonneg (F64 (f_abs x))"
  by (cases x) auto

lemma mape_term:
  assumes r: "rounding rnd" and t: "is_num rnd t" and p: "is_num rnd p" and nz: "nonzero t"
  shows "\<exists>y. v_abs (v_div rnd (v_sub rnd t p) t) = F64 y \<and> nonneg (F64 y) \<and> (t = p \<longrightarrow> y = Fin 0)"
proof -
  from num_to_float[OF r t] nz obtain b where b: "to_float rnd t = Fin b" "b \<noteq> 0" by blast
  let ?y = "f_abs (f_div rnd (to_float rnd (v_sub rnd t p)) (Fin b))"
  have e: "v_abs (v_div rnd (v_sub rnd t p) t) = F64 ?y" by (simp add: v_div_def b)
  have "f_div rnd (to_float rnd (v_sub rnd t p)) (Fin b) \<noteq> NaN"
    using v_sub_not_NaN[OF r t p] b by (intro f_div_not_NaN)
  then have nn: "nonneg (F64 ?y)" by (rule f_abs_nonneg)
  have "?y = Fin 0" if "t = p"
    using that v_sub_self[OF r t] b by (simp add: fl_zero[OF r])
  with e nn show ?thesis by blast
qed

lemma smape_term:
  assumes r: "rounding rnd" and pos: "smape_pos rnd c t p d n" and c: "1 \<le> c" and d: "0 < d"
  shows "\<exists>y. v_div rnd (v_double rnd (v_abs (v_sub rnd t p))) (v_add rnd (v_abs t) (v_abs p)) = F64 y
            \<and> nonneg (F64 y) \<and> (t = p \<longrightarrow> y = Fin 0)
            \<and> (2 \<le> c \<longrightarrow> (\<exists>x. y = Fin x \<and> 0 \<le> x \<and> x \<le> 2))"
proof -
  from pos have den: "to_float rnd (v_add rnd (v_abs t) (v_abs p)) = Fin d"
    and nom: "to_float rnd (v_abs (v_sub rnd t p)) = Fin n"
    and n: "0 \<le> n" "n \<le> d" and cd: "c * d \<le> max_float" and dbl: "rnd (2 * n) = 2 * n"
    and eq: "t = p \<longrightarrow> n = 0"
    by (simp_all add: smape_pos_def)
  let ?y = "f_div rnd (fl rnd (2 * n)) (Fin d)"
  have e: "v_div rnd (v_double rnd (v_abs (v_sub rnd t p))) (v_add rnd (v_abs t) (v_abs p)) = F64 ?y"
    by (simp add: v_div_def v_double_def den nom)
  have nn: "nonneg (F64 ?y)"
  proof -
    have "nonneg (F64 (fl rnd (2 * n)))" using n by (intro fl_nonneg[OF r]) simp
    then show ?thesis using d by (rule f_div_nonneg[OF r])
  qed
  have z: "?y = Fin 0" if "t = p"
  proof -
    from that eq have "n = 0" by simp
    then show ?thesis using d by (simp add: fl_zero[OF r])
  qed
  have b: "\<exists>x. ?y = Fin x \<and> 0 \<le> x \<and> x \<le> 2" if c2: "2 \<le> c"
  proof -
    have "2 * d \<le> c * d" using c2 d by (intro mult_right_mono) auto
    with cd n have "2 * n \<le> max_float" by linarith
    then have f2: "fl rnd (2 * n) = Fin (2 * n)" using n dbl by (simp add: fl_Fin)
    have q: "0 \<le> 2 * n / d" "2 * n / d \<le> 2" using n d by (simp_all add: pos_divide_le_eq)
    have lo: "0 \<le> rnd (2 * n / d)" using r q by (simp add: rnd_nonneg)
    have "rnd (2 * n / d) \<le> rnd 2" using r q by (simp add: rnd_mono)
    then have hi: "rnd (2 * n / d) \<le> 2" using r by (simp add: rnd_2)
    have "(2::real) \<le> max_float" by (simp add: max_float_def)
    with hi lo have "fl rnd (2 * n / d) = Fin (rnd (2 * n / d))" by (intro fl_Fin) simp
    then show ?thesis using f2 d lo hi by simp
  qed
  from e nn z b show ?thesis by blast
qed


lemma where_nonzero_length: "length (where_nonzero a) \<le> length a"
  unfolding where_nonzero_def by (rule order_trans[OF length_filter_le]) simp

lemma smape_terms:
  assumes r: "rounding rnd" and len: "length y_true = length y_pred"
    and nt: "\<forall>x \<in> set y_true. is_num rnd x" and np: "\<forall>x \<in> set y_pred. is_num rnd x"
    and ok: "list_all2 (den_ok c rnd) y_true y_pred" and c: "1 \<le> c" "c \<le> 2"
  shows "\<forall>i \<in> set (where_nonzero (smape_den rnd y_true y_pred)).
           \<exists>y. v_div rnd (v_double rnd (v_abs (v_sub rnd (y_true ! i) (y_pred ! i))))
                  (v_add rnd (v_abs (y_true ! i)) (v_abs (y_pred ! i))) = F64 y
              \<and> nonneg (F64 y) \<and> (y_true ! i = y_pred ! i \<longrightarrow> y = Fin 0)
              \<and> (2 \<le> c \<longrightarrow> (\<exists>x. y = Fin x \<and> 0 \<le> x \<and> x \<le> 2))"
    and "\<forall>i < length y_true. nonzero (y_true ! i) \<or> nonzero (y_pred ! i) \<longrightarrow>
           i \<in> set (where_nonzero (smape_den rnd y_true y_pred))"
proof -
  have pos: "\<exists>d n. smape_pos rnd c (y_true ! i) (y_pred ! i) d n" if "i < length y_true" for i
  proof -
    have "is_num rnd (y_true ! i)" "is_num rnd (y_pred ! i)" using that nt np len by auto
    moreover have "den_ok c rnd (y_true ! i) (y_pred ! i)"
      using ok that by (simp add: list_all2_conv_all_nth)
    ultimately show ?thesis using r c by (intro smape_pos_ex)
  qed
  have den: "smape_den rnd y_true y_pred ! i = v_add rnd (v_abs (y_true ! i)) (v_abs (y_pred ! i))"
    if "i < length y_true" for i
    using that by (simp add: smape_den_def)
  have l: "length (smape_den rnd y_true y_pred) = length y_true" by (simp add: smape_den_def)
  show "\<forall>i \<in> set (where_nonzero (smape_den rnd y_true y_pred)).
           \<exists>y. v_div rnd (v_double rnd (v_abs (v_sub rnd (y_true ! i) (y_pred ! i))))
                  (v_add rnd (v_abs (y_true ! i)) (v_abs (y_pred ! i))) = F64 y
              \<and> nonneg (F64 y) \<and> (y_true ! i = y_pred ! i \<longrightarrow> y = Fin 0)
              \<and> (2 \<le> c \<longrightarrow> (\<exists>x. y = Fin x \<and> 0 \<le> x \<and> x \<le> 2))"
  proof
    fix i assume "i \<in> set (where_nonzero (smape_den rnd y_true y_pred))"
    then have i: "i < length y_true" and nz: "nonzero (smape_den rnd y_true y_pred ! i)"
      by (simp_all add: set_where_nonzero l)
    from pos[OF i] obtain d n where p: "smape_pos rnd c (y_true ! i) (y_pred ! i) d n" by blast
    then have "0 < d" using nz den[OF i] by (simp add: smape_pos_def)
    with r p c(1) show "\<exists>y. v_div rnd (v_double rnd (v_abs (v_sub rnd (y_true ! i) (y_pred ! i))))
                  (v_add rnd (v_abs (y_true ! i)) (v_abs (y_pred ! i))) = F64 y
              \<and> nonneg (F64 y) \<and> (y_true ! i = y_pred ! i \<longrightarrow> y = Fin 0)
              \<and> (2 \<le> c \<longrightarrow> (\<exists>x. y = Fin x \<and> 0 \<le> x \<and> x \<le> 2))"
      by (rule smape_term)
  qed
  show "\<forall>i < length y_true. nonzero (y_true ! i) \<or> nonzero (y_pred ! i) \<longrightarrow>
           i \<in> set (where_nonzero (smape_den rnd y_true y_pred))"
  proof (intro allI impI)
    fix i assume i: "i < length y_true" and nz: "nonzero (y_true ! i) \<or> nonzero (y_pred ! i)"
    from pos[OF i] obtain d n where p: "smape_pos rnd c (y_true ! i) (y_pred ! i) d n" by blast
    with nz have "nonzero (v_add rnd (v_abs (y_true ! i)) (v_abs (y_pred ! i)))"
      by (simp add: smape_pos_def)
    then show "i \<in> set (where_nonzero (smape_den rnd y_true y_pred))"
      using i den[OF i] by (simp add: set_where_nonzero l)
  qed
qed

lemma SMAPE_eq:
  assumes "length y_true = length y_pred"
  shows "SMAPE rnd y_true y_pred =
    F64 (np_mean rnd (map (\<lambda>i. F64 (smape_q rnd y_true y_pred i))
      (where_nonzero (smape_den rnd y_true y_pred))))"
  unfolding SMAPE_def SMAPE_try_eq[OF assms] option.case smape_q_def v_div_def ..

lemma MAPE_eq:
  assumes "length y_true = length y_pred"
  shows "MAPE rnd y_true y_pred =
    F64 (np_mean rnd (map (\<lambda>i. F64 (mape_q rnd y_true y_pred i)) (where_nonzero y_true)))"
  unfolding MAPE_def MAPE_try_eq[OF assms] option.case mape_q_def v_div_def v_abs.simps ..



section \<open>Non-negativity and range of MAPE and SMAPE\<close>

text \<open>
  Claim C9, as stated, fails where the arithmetic overflows: with truth \<open>2^1023\<close> and
  forecast \<open>-2^1023\<close> (one nonzero truth value, equal lengths) the denominator and the
  difference of SMAPE are both infinite, their quotient is nan, nothing is raised and
  SMAPE returns nan, which is not a non-negative value.
\<close>

theorem SMAPE_overflow_counterexample:
  "SMAPE exact [F64 (Fin (2 ^ 1023))] [F64 (Fin (- (2 ^ 1023)))] = F64 NaN
   \<and> \<not> nonneg (SMAPE exact [F64 (Fin (2 ^ 1023))] [F64 (Fin (- (2 ^ 1023)))])"
  by (simp add: eval_defs fl_def exact_def max_float_def)

text \<open>
  Claim C9, amended. For every rounding, on arrays of equal length of finite numbers with
  at least one nonzero truth value: MAPE returns a non-negative value (a float not below
  zero, or the positive infinity when a quotient overflows), and 0 when truth and
  forecast are equal. Where in addition no denominator \<open>\<bar>truth\<bar> + \<bar>forecast\<bar>\<close> of
  SMAPE overflows or wraps, SMAPE returns a non-negative value too, and 0 when truth and
  forecast are equal.
\<close>

theorem MAPE_SMAPE_nonneg:
  assumes r: "rounding rnd" and len: "length y_true = length y_pred"
    and nt: "\<forall>x \<in> set y_true. is_num rnd x" and np: "\<forall>x \<in> set y_pred. is_num rnd x"
    and nz: "\<exists>x \<in> set y_true. nonzero x"
  shows "nonneg (MAPE rnd y_true y_pred)
       \<and> (y_true = y_pred \<longrightarrow> MAPE rnd y_true y_pred = F64 (Fin 0))
       \<and> (list_all2 (den_ok 1 rnd) y_true y_pred \<longrightarrow>
            nonneg (SMAPE rnd y_true y_pred)
          \<and> (y_true = y_pred \<longrightarrow> SMAPE rnd y_true y_pred = F64 (Fin 0)))"
proof -
  from nz obtain k where k: "k < length y_true" "nonzero (y_true ! k)"
    by (auto simp: in_set_conv_nth)
  have m1: "where_nonzero y_true \<noteq> []" using k by (rule where_nonzero_nonempty)
  have mt: "\<exists>y. F64 (mape_q rnd y_true y_pred i) = F64 y \<and> nonneg (F64 y)
                 \<and> (y_true ! i = y_pred ! i \<longrightarrow> y = Fin 0)"
    if "i \<in> set (where_nonzero y_true)" for i
  proof -
    from that have i: "i < length y_true" "nonzero (y_true ! i)" by (simp_all add: set_where_nonzero)
    then have "is_num rnd (y_true ! i)" "is_num rnd (y_pred ! i)" using nt np len by auto
    from mape_term[OF r this i(2)] show ?thesis by (simp add: mape_q_def v_div_def)
  qed
  have a: "nonneg (MAPE rnd y_true y_pred)"
    unfolding MAPE_eq[OF len] using mt by (intro np_mean_nonneg[OF r m1]) auto
  have b: "MAPE rnd y_true y_pred = F64 (Fin 0)" if "y_true = y_pred"
  proof -
    have "np_mean rnd (map (\<lambda>i. F64 (mape_q rnd y_true y_pred i)) (where_nonzero y_true)) = Fin 0"
      using mt that by (intro np_mean_zero[OF r m1]) auto
    then show ?thesis unfolding MAPE_eq[OF len] by simp
  qed
  have c: "nonneg (SMAPE rnd y_true y_pred)
         \<and> (y_true = y_pred \<longrightarrow> SMAPE rnd y_true y_pred = F64 (Fin 0))"
    if ok: "list_all2 (den_ok 1 rnd) y_true y_pred"
  proof -
    note st = smape_terms[OF r len nt np ok, simplified]
    let ?js = "where_nonzero (smape_den rnd y_true y_pred)"
    have "k \<in> set ?js" using st(2) k by blast
    then have m2: "?js \<noteq> []" by auto
    have q: "nonneg (F64 (smape_q rnd y_true y_pred i))
           \<and> (y_true ! i = y_pred ! i \<longrightarrow> smape_q rnd y_true y_pred i = Fin 0)"
      if "i \<in> set ?js" for i
      using st(1) that by (fastforce simp: smape_q_def v_div_def)
    have 1: "nonneg (SMAPE rnd y_true y_pred)"
      unfolding SMAPE_eq[OF len] using q by (intro np_mean_nonneg[OF r m2]) auto
    have 2: "SMAPE rnd y_true y_pred = F64 (Fin 0)" if "y_true = y_pred"
    proof -
      have "np_mean rnd (map (\<lambda>i. F64 (smape_q rnd y_true y_pred i)) ?js) = Fin 0"
        using q that by (intro np_mean_zero[OF r m2]) auto
      then show ?thesis unfolding SMAPE_eq[OF len] by simp
    qed
    from 1 2 show ?thesis by blast
  qed
  from a b c show ?thesis by blast
qed

text \<open>
  Claim C10, as stated, fails where the arithmetic leaves its range: on the 64-bit
  integer arrays \<open>[2^62 + 1]\<close> and \<open>[-(2^62 + 1)]\<close> the denominator wraps to a negative
  number and SMAPE returns \<open>-2\<close>.
\<close>

theorem SMAPE_wrap_counterexample:
  "SMAPE exact [I64 (2 ^ 62 + 1)] [I64 (- (2 ^ 62 + 1))] = F64 (Fin (- 2))"
  by (simp add: eval_defs fl_exact_small wrap64_def)

text \<open>
  Claim C10, amended. For every rounding, on arrays of equal length (shorter than
  \<open>2^52\<close>) of finite numbers with a position where truth or forecast is nonzero, and
  where at every position twice the denominator \<open>\<bar>truth\<bar> + \<bar>forecast\<bar>\<close> does not
  overflow (between integers: the denominator does not wrap), SMAPE returns a finite
  value between 0 and 2.
\<close>

theorem SMAPE_range:
  assumes r: "rounding rnd" and len: "length y_true = length y_pred"
    and short: "length y_true \<le> 2 ^ 52"
    and nt: "\<forall>x \<in> set y_true. is_num rnd x" and np: "\<forall>x \<in> set y_pred. is_num rnd x"
    and ok: "list_all2 (den_ok 2 rnd) y_true y_pred"
    and nz: "\<exists>i < length y_true. nonzero (y_true ! i) \<or> nonzero (y_pred ! i)"
  shows "\<exists>v. SMAPE rnd y_true y_pred = F64 (Fin v) \<and> 0 \<le> v \<and> v \<le> 2"
proof -
  note st = smape_terms[OF r len nt np ok, simplified]
  let ?js = "where_nonzero (smape_den rnd y_true y_pred)"
  from nz st(2) obtain k where "k \<in> set ?js" by blast
  then have m2: "?js \<noteq> []" by auto
  have "length ?js \<le> length (smape_den rnd y_true y_pred)" by (rule where_nonzero_length)
  then have l: "length ?js \<le> 2 ^ 52" using short by (simp add: smape_den_def)
  have q: "\<exists>x. smape_q rnd y_true y_pred i = Fin x \<and> 0 \<le> x \<and> x \<le> 2" if "i \<in> set ?js" for i
    using st(1) that by (fastforce simp: smape_q_def v_div_def)
  have "\<exists>v. np_mean rnd (map (\<lambda>i. F64 (smape_q rnd y_true y_pred i)) ?js) = Fin v \<and> 0 \<le> v \<and> v \<le> 2"
    using q by (intro np_mean_bounds[OF r m2 l]) auto
  then show ?thesis unfolding SMAPE_eq[OF len] by simp
qed

theorem MAPE_SMAPE_nonneg_witness:
  "nonneg (MAPE exact [F64 (Fin 1), F64 (Fin 2)] [F64 (Fin 3), F64 (Fin 5)])
   \<and> nonneg (SMAPE exact [F64 (Fin 1), F64 (Fin 2)] [F64 (Fin 3), F64 (Fin 5)])
   \<and> MAPE exact [I64 1, I64 2] [I64 1, I64 2] = F64 (Fin 0)
   \<and> SMAPE exact [I64 1, I64 2] [I64 1, I64 2] = F64 (Fin 0)"
proof -
  let ?t = "[F64 (Fin 1), F64 (Fin 2)]" and ?p = "[F64 (Fin 3), F64 (Fin 5)]"
  let ?u = "[I64 1, I64 2]"
  have nt: "\<forall>x \<in> set ?t. is_num exact x" and np: "\<forall>x \<in> set ?p. is_num exact x"
    and nu: "\<forall>x \<in> set ?u. is_num exact x"
    by (simp_all add: exact_def max_float_def)
  have zt: "\<exists>x \<in> set ?t. nonzero x" and zu: "\<exists>x \<in> set ?u. nonzero x" by simp_all
  have ok: "list_all2 (den_ok 1 exact) ?t ?p" and oku: "list_all2 (den_ok 1 exact) ?u ?u"
    by (simp_all add: exact_def max_float_def)
  have l: "length ?t = length ?p" and lu: "length ?u = length ?u" by simp_all
  from MAPE_SMAPE_nonneg[OF rounding_exact l nt np zt] ok
  have 1: "nonneg (MAPE exact ?t ?p)" "nonneg (SMAPE exact ?t ?p)" by blast+
  from MAPE_SMAPE_nonneg[OF rounding_exact lu nu nu zu] oku
  have 2: "MAPE exact ?u ?u = F64 (Fin 0)" "SMAPE exact ?u ?u = F64 (Fin 0)" by blast+
  from 1 2 show ?thesis by blast
qed

theorem SMAPE_range_witness:
  "\<exists>v. SMAPE exact [F64 (Fin 1), F64 (Fin 0), F64 (Fin 3)] [F64 (Fin (- 1)), F64 (Fin 0), F64 (Fin 1)] = F64 (Fin v)
        \<and> 0 \<le> v \<and> v \<le> 2"
proof -
  let ?t = "[F64 (Fin 1), F64 (Fin 0), F64 (Fin 3)]" and ?p = "[F64 (Fin (- 1)), F64 (Fin 0), F64 (Fin 1)]"
  have nt: "\<forall>x \<in> set ?t. is_num exact x" and np: "\<forall>x \<in> set ?p. is_num exact x"
    by (simp_all add: exact_def max_float_def)
  have ok: "list_all2 (den_ok 2 exact) ?t ?p" by (simp add: exact_def max_float_def)
  have l: "length ?t = length ?p" and s: "length ?t \<le> 2 ^ 52" by simp_all
  have "0 < length ?t \<and> (nonzero (?t ! 0) \<or> nonzero (?p ! 0))" by simp
  then have nz: "\<exists>i < length ?t. nonzero (?t ! i) \<or> nonzero (?p ! i)" by blast
  show ?thesis by (rule SMAPE_range[OF rounding_exact l s nt np ok nz])
qed

lemma SMAPE_range_example:
  "SMAPE exact [F64 (Fin 1), F64 (Fin 0), F64 (Fin 3)] [F64 (Fin (- 1)), F64 (Fin 0), F64 (Fin 1)] = F64 (Fin (3 / 2))"
  by (simp add: eval_defs fl_exact_small wrap64_def)

lemma MAPE_example:
  "MAPE exact [F64 (Fin 1), F64 (Fin 2)] [F64 (Fin 3), F64 (Fin 5)] = F64 (Fin (7 / 4))"
  by (simp add: eval_defs fl_exact_small)


lemma mapM_Some_map: "(\<And>x. x \<in> set xs \<Longrightarrow> f x = Some (g x)) \<Longrightarrow> mapM f xs = Some (map g xs)"
  by (induction xs) auto

lemma mapM_length: "mapM f xs = Some ys \<Longrightarrow> length ys = length xs"
  by (induction xs arbitrary: ys) (auto split: bind_splits)

lemma mapM_nth: "mapM f xs = Some ys \<Longrightarrow> i < length xs \<Longrightarrow> f (xs ! i) = Some (ys ! i)"
proof (induction xs arbitrary: ys i)
  case Nil
  then show ?case by simp
next
  case (Cons x xs)
  then show ?case by (cases i) (auto split: bind_splits)
qed

lemma get_col_set_col: "get_col (set_col df c vs) c' = (if c' = c then Some vs else get_col df c')"
  by (simp add: get_col_def set_col_def update_conv')

lemma index_set_col: "index (set_col df c vs) = index df"
  by (simp add: set_col_def)

text \<open>The loop that assigns one computed column per requested metric.\<close>

lemma metric_loop:
  assumes "foldM (\<lambda>metrics_df m. do { vals \<leftarrow> g m; Some (set_col metrics_df m (map Num vals)) }) ms df0 = Some df"
  shows "index df = index df0
       \<and> (\<forall>c. c \<notin> set ms \<longrightarrow> get_col df c = get_col df0 c)
       \<and> (\<forall>m \<in> set ms. \<exists>vals. g m = Some vals \<and> get_col df m = Some (map Num vals))"
  using assms
proof (induction ms arbitrary: df0)
  case Nil
  then show ?case by simp
next
  case (Cons m ms)
  from Cons.prems obtain vals where v: "g m = Some vals"
    and rest: "foldM (\<lambda>metrics_df m. do { vals \<leftarrow> g m; Some (set_col metrics_df m (map Num vals)) }) ms
                 (set_col df0 m (map Num vals)) = Some df"
    by (auto split: bind_splits)
  note ih = Cons.IH[OF rest]
  have 1: "index df = index df0" using ih by (simp add: index_set_col)
  have 2: "\<forall>c. c \<notin> set (m # ms) \<longrightarrow> get_col df c = get_col df0 c"
    using ih by (simp add: get_col_set_col)
  have 3: "\<forall>m' \<in> set (m # ms). \<exists>vals. g m' = Some vals \<and> get_col df m' = Some (map Num vals)"
  proof
    fix m' assume m': "m' \<in> set (m # ms)"
    show "\<exists>vals. g m' = Some vals \<and> get_col df m' = Some (map Num vals)"
    proof (cases "m' \<in> set ms")
      case True
      then show ?thesis using ih by blast
    next
      case False
      then have "m' = m" using m' by simp
      moreover have "get_col df m' = get_col (set_col df0 m (map Num vals)) m'"
        using ih False by blast
      ultimately show ?thesis using v by (simp add: get_col_set_col)
    qed
  qed
  from 1 2 3 show ?case by blast
qed

subsection \<open>The error functions on two single values\<close>

text \<open>A float is left as it is by a division by one.\<close>

lemma f_div_one: "is_float rnd x \<Longrightarrow> f_div rnd x (Fin 1) = x"
  by (cases x) (simp_all add: fl_Fin)

lemma is_float_fl: "rounding rnd \<Longrightarrow> is_float rnd (fl rnd x)"
  by (auto simp: fl_def Let_def rnd_idem)

lemma is_float_to_float_int: "rounding rnd \<Longrightarrow> is_float rnd (to_float rnd (I64 i))"
  by (simp add: is_float_fl)

lemma is_float_f_add: "rounding rnd \<Longrightarrow> is_float rnd (f_add rnd PInf y)" 
  "rounding rnd \<Longrightarrow> is_float rnd (f_add rnd NInf y)" "rounding rnd \<Longrightarrow> is_float rnd (f_add rnd NaN y)"
  by (cases y; simp)+

lemma is_float_f_sub: "rounding rnd \<Longrightarrow> is_float rnd (f_sub rnd x y)"
proof (cases x)
  case (Fin a)
  assume r: "rounding rnd"
  show ?thesis using Fin r by (cases y) (simp_all add: f_sub_def is_float_fl)
next
  case PInf
  assume r: "rounding rnd"
  then show ?thesis using PInf by (cases y) (simp_all add: f_sub_def)
next
  case NInf
  assume r: "rounding rnd"
  then show ?thesis using NInf by (cases y) (simp_all add: f_sub_def)
next
  case NaN
  assume r: "rounding rnd"
  then show ?thesis using NaN by (cases y) (simp_all add: f_sub_def)
qed

lemma is_float_f_abs: "rounding rnd \<Longrightarrow> is_float rnd x \<Longrightarrow> is_float rnd (f_abs x)"
  by (cases x) (simp_all add: rnd_abs)

lemma is_float_f_square: "rounding rnd \<Longrightarrow> is_float rnd (f_square rnd x)"
  by (cases x) (simp_all add: is_float_fl)

lemma is_float_v_sub:
  "rounding rnd \<Longrightarrow> is_float rnd (to_float rnd (v_sub rnd t f))"
  by (cases t; cases f) (simp_all add: is_float_fl is_float_f_sub)

lemma is_float_v_abs_sub:
  "rounding rnd \<Longrightarrow> is_float rnd (to_float rnd (v_abs (v_sub rnd t f)))"
  by (cases t; cases f) (simp_all add: is_float_fl is_float_f_sub is_float_f_abs)

lemma is_float_v_square_sub:
  "rounding rnd \<Longrightarrow> is_float rnd (to_float rnd (v_square rnd (v_sub rnd t f)))"
  by (cases t; cases f) (simp_all add: is_float_fl is_float_f_square)

lemma np_mean_single: "np_mean rnd [v] = f_div rnd (to_float rnd v) (Fin 1)"
  by (simp add: np_mean_def)

lemma MAE_scalar:
  "rounding rnd \<Longrightarrow> MAE rnd [t] [f] = Some (to_float rnd (v_abs (v_sub rnd t f)))"
  by (simp add: MAE_def broadcast2_def np_mean_single f_div_one is_float_v_abs_sub)

lemma MSE_scalar:
  "rounding rnd \<Longrightarrow> MSE rnd [t] [f] = Some (to_float rnd (v_square rnd (v_sub rnd t f)))"
  by (simp add: MSE_def broadcast2_def np_mean_single f_div_one is_float_v_square_sub)

lemma RMSE_scalar:
  "rounding rnd \<Longrightarrow> RMSE rnd [t] [f] = Some (np_sqrt rnd (to_float rnd (v_square rnd (v_sub rnd t f))))"
  by (simp add: RMSE_def MSE_scalar)

lemma metrics_table_simps:
  "metrics_table rnd ''MAE'' = Some (\<lambda>t p. map_option F64 (MAE rnd t p))"
  "metrics_table rnd ''MSE'' = Some (\<lambda>t p. map_option F64 (MSE rnd t p))"
  "metrics_table rnd ''RMSE'' = Some (\<lambda>t p. map_option F64 (RMSE rnd t p))"
  "metrics_table rnd ''MAPE'' = Some (\<lambda>t p. Some (MAPE rnd t p))"
  "metrics_table rnd ''SMAPE'' = Some (\<lambda>t p. Some (SMAPE rnd t p))"
  by (simp_all add: metrics_table_def)

lemma abs_le_max_of_square:
  assumes "d * d \<le> max_float"
  shows "\<bar>d\<bar> \<le> max_float"
proof (cases "\<bar>d\<bar> \<le> 1")
  case True
  then show ?thesis using max_float_pos(2) by linarith
next
  case False
  then have "1 \<le> \<bar>d\<bar>" by simp
  then have "\<bar>d\<bar> * 1 \<le> \<bar>d\<bar> * \<bar>d\<bar>" by (intro mult_left_mono) simp_all
  moreover have "\<bar>d\<bar> * \<bar>d\<bar> = d * d" by simp
  ultimately show ?thesis using assms by linarith
qed

lemma exact_diff_values:
  assumes r: "rounding rnd" and e: "exact_diff rnd t f d"
  shows "to_float rnd (v_abs (v_sub rnd t f)) = Fin \<bar>d\<bar>"
    and "to_float rnd (v_square rnd (v_sub rnd t f)) = Fin (d * d)"
    and "np_sqrt rnd (Fin (d * d)) = Fin \<bar>d\<bar>"
proof -
  have sq: "sqrt (d * d) = \<bar>d\<bar>" by simp
  have "to_float rnd (v_abs (v_sub rnd t f)) = Fin \<bar>d\<bar>
      \<and> to_float rnd (v_square rnd (v_sub rnd t f)) = Fin (d * d)
      \<and> fl rnd \<bar>d\<bar> = Fin \<bar>d\<bar>"
  proof (cases t)
    case (I64 a)
    with e obtain b where f: "f = I64 b" by (cases f) auto
    define k where "k = a - b"
    from e I64 f have d: "d = of_int k" and k0: "\<bar>k\<bar> < 2 ^ 26" by (simp_all add: k_def)
    from k0 have kb: "- 67108864 < k" "k < 67108864" by simp_all
    have ka: "0 \<le> \<bar>k\<bar>" "\<bar>k\<bar> < 67108864" using k0 by simp_all
    have w: "wrap64 k = k" using kb by (simp add: wrap64_def)
    have w2: "wrap64 \<bar>k\<bar> = \<bar>k\<bar>" using ka by (simp add: wrap64_def)
    have "\<bar>k\<bar> * \<bar>k\<bar> \<le> 67108864 * 67108864" using ka by (intro mult_mono) simp_all
    then have k2: "k * k \<le> 4503599627370496" "0 \<le> k * k" by (simp_all add: abs_mult_self_eq)
    define q where "q = k * k"
    have qb: "q \<le> 4503599627370496" "0 \<le> q" using k2 by (simp_all add: q_def)
    have w3: "wrap64 q = q" using qb by (simp add: wrap64_def)
    have a1: "rnd (of_int \<bar>k\<bar>) = of_int \<bar>k\<bar>" using r ka by (intro rnd_int) simp_all
    have a2: "rnd (of_int q) = of_int q" using r qb by (intro rnd_int) simp_all
    have b1: "\<bar>real_of_int \<bar>k\<bar>\<bar> \<le> max_float"
    proof -
      have "real_of_int \<bar>k\<bar> \<le> 67108864" using ka by linarith
      moreover have "(67108864::real) \<le> max_float" by (simp add: max_float_def)
      ultimately show ?thesis by simp
    qed
    have b2: "\<bar>real_of_int q\<bar> \<le> max_float"
    proof -
      have "real_of_int q \<le> 4503599627370496" using qb(1) by linarith
      moreover have "0 \<le> real_of_int q" using qb(2) by simp
      moreover have "(4503599627370496::real) \<le> max_float" by (simp add: max_float_def)
      ultimately show ?thesis by simp
    qed
    have f1: "fl rnd (of_int \<bar>k\<bar>) = Fin (of_int \<bar>k\<bar>)" using fl_Fin[of rnd "of_int \<bar>k\<bar>"] a1 b1 by simp
    have f2: "fl rnd (of_int q) = Fin (of_int q)"
      using fl_Fin[of rnd "of_int q"] a2 b2 by simp
    have s: "v_sub rnd t f = I64 k" unfolding I64 f by (simp add: k_def[symmetric] w)
    have 1: "to_float rnd (v_abs (v_sub rnd t f)) = Fin \<bar>d\<bar>"
      unfolding s d using f1 w2 by simp
    have 2: "to_float rnd (v_square rnd (v_sub rnd t f)) = Fin (d * d)"
      unfolding s d using f2 w3 by (simp add: q_def[symmetric]) (simp add: q_def)
    have 3: "fl rnd \<bar>d\<bar> = Fin \<bar>d\<bar>" unfolding d using f1 by simp
    from 1 2 3 show ?thesis by blast
  next
    case (F64 x)
    with e obtain a where x: "x = Fin a" by (cases x) auto
    from e F64 x obtain y where f: "f = F64 y" by (cases f) auto
    from e F64 x f obtain b where y: "y = Fin b" by (cases y) auto
    have e': "exact_diff rnd (F64 (Fin a)) (F64 (Fin b)) d"
      using e unfolding F64 x f y .
    from e'[unfolded exact_diff.simps] have d: "d = a - b" and rd: "rnd d = d" and rs: "rnd (d * d) = d * d"
      and m: "d * d \<le> max_float" by blast+
    have dm: "\<bar>d\<bar> \<le> max_float" using m by (rule abs_le_max_of_square)
    have f1: "fl rnd d = Fin d" using fl_Fin[of rnd d] rd dm by simp
    have f2: "fl rnd (d * d) = Fin (d * d)" using fl_Fin[of rnd "d * d"] rs m by simp
    have ra: "rnd \<bar>d\<bar> = \<bar>d\<bar>" using r rd by (simp add: rnd_abs)
    have f3: "fl rnd \<bar>d\<bar> = Fin \<bar>d\<bar>" using fl_Fin[of rnd "\<bar>d\<bar>"] ra dm by simp
    have s: "f_sub rnd (Fin a) (Fin b) = Fin d" using f1 by (simp add: f_sub_def d)
    have 1: "to_float rnd (v_abs (v_sub rnd t f)) = Fin \<bar>d\<bar>"
      unfolding F64 f x y by (simp add: s)
    have 2: "to_float rnd (v_square rnd (v_sub rnd t f)) = Fin (d * d)"
      unfolding F64 f x y by (simp add: s f2)
    from 1 2 f3 show ?thesis by blast
  qed
  then show "to_float rnd (v_abs (v_sub rnd t f)) = Fin \<bar>d\<bar>"
    and "to_float rnd (v_square rnd (v_sub rnd t f)) = Fin (d * d)"
    and "np_sqrt rnd (Fin (d * d)) = Fin \<bar>d\<bar>"
    using sq by simp_all
qed


subsection \<open>Aggregate mode\<close>

lemma agg_loop:
  assumes agg: "get_perf_on_agg_forecast ev"
    and ok: "compute_metrics rnd ext df ev = Some metrics_df"
  shows "\<forall>m \<in> set (metrics ev). \<exists>vals.
            mapM (\<lambda>(t, f). do { fn \<leftarrow> metrics_table rnd m; fn [t] [f] })
              (map (row_values rnd) (group_sums ext df)) = Some vals
            \<and> get_col metrics_df m = Some (map Num vals)"
  using ok agg unfolding compute_metrics_def by (auto dest!: metric_loop)

lemma agg_column:
  assumes loop: "\<forall>m \<in> set ms. \<exists>vals.
            mapM (\<lambda>(t, f). do { fn \<leftarrow> metrics_table rnd m; fn [t] [f] }) rows = Some vals
            \<and> get_col metrics_df m = Some (map Num vals)"
    and m: "m \<in> set ms"
    and tab: "metrics_table rnd m = Some fn"
    and fn: "\<And>t f. fn [t] [f] = Some (F64 (g t f))"
  shows "get_col metrics_df m = Some (map (\<lambda>(t, f). Num (F64 (g t f))) rows)"
proof -
  have "mapM (\<lambda>(t, f). do { fn \<leftarrow> metrics_table rnd m; fn [t] [f] }) rows
          = Some (map (\<lambda>(t, f). F64 (g t f)) rows)"
    by (rule mapM_Some_map) (auto simp: tab fn)
  with loop m show ?thesis by (auto simp: comp_def split_def)
qed

text \<open>
  Claim C6, counterexample. In aggregate mode the group B of the specification's
  example, with truth \<open>[0, 0]\<close> and forecast \<open>[5, 5]\<close>, has the sums 0 and 10 and the
  aggregate MAE 10, not 5. And RMSE is not the absolute difference of the sums when
  its square overflows: on the sums \<open>2^600\<close> and 0 it is infinite.
\<close>

theorem aggregate_MAE_example_counterexample:
  "map_option (\<lambda>d. get_col d ''MAE'') (compute_metrics exact example_ext spec_example agg_eval)
     = Some (Some [Num (F64 (Fin 0)), Num (F64 (Fin 10))])
   \<and> RMSE exact [F64 (Fin (2 ^ 600))] [F64 (Fin 0)] = Some PInf"
proof -
  have k: "group_keys spec_example = [''A'', ''B'']"
    by (simp add: group_keys_def spec_example_def)
  have s: "group_sums example_ext spec_example = [(F64 (Fin 20), F64 (Fin 20)), (F64 (Fin 0), F64 (Fin 10))]"
    unfolding group_sums_def k
    by (simp add: group_rows_def spec_example_def example_ext_def exact_sum_def fl_exact_small)
  have e: "exact = (\<lambda>x. x)" by (rule ext) (simp add: exact_def)
  have m: "MAE exact [F64 (Fin 20)] [F64 (Fin 20)] = Some (Fin 0)"
     "MAE exact [F64 (Fin 0)] [F64 (Fin 10)] = Some (Fin 10)"
     "MSE exact [F64 (Fin 20)] [F64 (Fin 20)] = Some (Fin 0)"
     "MSE exact [F64 (Fin 0)] [F64 (Fin 10)] = Some (Fin 100)"
     "RMSE exact [F64 (Fin 20)] [F64 (Fin 20)] = Some (Fin 0)"
     "RMSE exact [F64 (Fin 0)] [F64 (Fin 10)] = Some (Fin 10)"
    by (simp_all add: eval_defs fl_exact_small)
  have 1: "map_option (\<lambda>d. get_col d ''MAE'') (compute_metrics exact example_ext spec_example agg_eval)
     = Some (Some [Num (F64 (Fin 0)), Num (F64 (Fin 10))])"
    by (simp add: compute_metrics_def agg_eval_def s k metrics_table_simps m get_col_set_col)
  have 2: "RMSE exact [F64 (Fin (2 ^ 600))] [F64 (Fin 0)] = Some PInf"
    by (simp add: eval_defs fl_def exact_def max_float_def)
  from 1 2 show ?thesis by blast
qed

text \<open>
  Claim C6, amended. In aggregate mode every requested metric function is applied to
  the two within-group sums, each an array of one element, and its values are the
  metric's column. For every group the MAE column is \<open>\<bar>S_t - S_f\<bar>\<close> and the MSE column
  \<open>(S_t - S_f)^2\<close> as numpy computes them on the two sums (between integers modulo
  \<open>2^64\<close>, between floats rounded, infinite on overflow), and the RMSE column is the
  square root of the MSE. Where the difference \<open>d\<close> of the two sums and its square are
  exact, the three are \<open>\<bar>d\<bar>\<close>, \<open>d^2\<close> and \<open>\<bar>d\<bar>\<close>. (A group with truth \<open>[0, 0]\<close> and
  forecast \<open>[5, 5]\<close> has aggregate MAE 10.)
\<close>

theorem aggregate_metrics_of_sums:
  assumes r: "rounding rnd"
    and agg: "get_perf_on_agg_forecast ev"
    and ok: "compute_metrics rnd ext df ev = Some metrics_df"
  shows "(\<forall>m \<in> set (metrics ev). \<exists>vals.
            mapM (\<lambda>(t, f). do { fn \<leftarrow> metrics_table rnd m; fn [t] [f] })
              (map (row_values rnd) (group_sums ext df)) = Some vals
            \<and> get_col metrics_df m = Some (map Num vals))
       \<and> (''MAE'' \<in> set (metrics ev) \<longrightarrow>
            get_col metrics_df ''MAE'' =
              Some (map (\<lambda>(t, f). Num (F64 (to_float rnd (v_abs (v_sub rnd t f)))))
                     (map (row_values rnd) (group_sums ext df))))
       \<and> (''MSE'' \<in> set (metrics ev) \<longrightarrow>
            get_col metrics_df ''MSE'' =
              Some (map (\<lambda>(t, f). Num (F64 (to_float rnd (v_square rnd (v_sub rnd t f)))))
                     (map (row_values rnd) (group_sums ext df))))
       \<and> (''RMSE'' \<in> set (metrics ev) \<longrightarrow>
            get_col metrics_df ''RMSE'' =
              Some (map (\<lambda>(t, f). Num (F64 (np_sqrt rnd (to_float rnd (v_square rnd (v_sub rnd t f))))))
                     (map (row_values rnd) (group_sums ext df))))
       \<and> (\<forall>t f d. exact_diff rnd t f d \<longrightarrow>
              to_float rnd (v_abs (v_sub rnd t f)) = Fin \<bar>d\<bar>
            \<and> to_float rnd (v_square rnd (v_sub rnd t f)) = Fin (d * d)
            \<and> np_sqrt rnd (to_float rnd (v_square rnd (v_sub rnd t f))) = Fin \<bar>d\<bar>)"
proof -
  note loop = agg_loop[OF agg ok]
  have 1: "get_col metrics_df ''MAE'' =
              Some (map (\<lambda>(t, f). Num (F64 (to_float rnd (v_abs (v_sub rnd t f)))))
                     (map (row_values rnd) (group_sums ext df)))"
    if "''MAE'' \<in> set (metrics ev)"
    by (rule agg_column[OF loop that metrics_table_simps(1)]) (simp add: MAE_scalar[OF r])
  have 2: "get_col metrics_df ''MSE'' =
              Some (map (\<lambda>(t, f). Num (F64 (to_float rnd (v_square rnd (v_sub rnd t f)))))
                     (map (row_values rnd) (group_sums ext df)))"
    if "''MSE'' \<in> set (metrics ev)"
    by (rule agg_column[OF loop that metrics_table_simps(2)]) (simp add: MSE_scalar[OF r])
  have 3: "get_col metrics_df ''RMSE'' =
              Some (map (\<lambda>(t, f). Num (F64 (np_sqrt rnd (to_float rnd (v_square rnd (v_sub rnd t f))))))
                     (map (row_values rnd) (group_sums ext df)))"
    if "''RMSE'' \<in> set (metrics ev)"
    by (rule agg_column[OF loop that metrics_table_simps(3)]) (simp add: RMSE_scalar[OF r])
  have 4: "to_float rnd (v_abs (v_sub rnd t f)) = Fin \<bar>d\<bar>
            \<and> to_float rnd (v_square rnd (v_sub rnd t f)) = Fin (d * d)
            \<and> np_sqrt rnd (to_float rnd (v_square rnd (v_sub rnd t f))) = Fin \<bar>d\<bar>"
    if "exact_diff rnd t f d" for t f d
    using exact_diff_values[OF r that] by simp
  from loop 1 2 3 4 show ?thesis by blast
qed


theorem aggregate_metrics_of_sums_witness:
  "rounding exact \<and> get_perf_on_agg_forecast agg_eval
   \<and> exact_diff exact (F64 (Fin 0)) (F64 (Fin 10)) (- 10)
   \<and> (\<exists>metrics_df. compute_metrics exact example_ext spec_example agg_eval = Some metrics_df
        \<and> get_col metrics_df ''MAE'' = Some [Num (F64 (Fin 0)), Num (F64 (Fin 10))]
        \<and> get_col metrics_df ''MSE'' = Some [Num (F64 (Fin 0)), Num (F64 (Fin 100))]
        \<and> get_col metrics_df ''RMSE'' = Some [Num (F64 (Fin 0)), Num (F64 (Fin 10))])"
proof -
  have k: "group_keys spec_example = [''A'', ''B'']"
    by (simp add: group_keys_def spec_example_def)
  have s: "group_sums example_ext spec_example = [(F64 (Fin 20), F64 (Fin 20)), (F64 (Fin 0), F64 (Fin 10))]"
    unfolding group_sums_def k
    by (simp add: group_rows_def spec_example_def example_ext_def exact_sum_def fl_exact_small)
  have agg: "get_perf_on_agg_forecast agg_eval" by (simp add: agg_eval_def)
  have ms: "''MAE'' \<in> set (metrics agg_eval)" "''MSE'' \<in> set (metrics agg_eval)"
    "''RMSE'' \<in> set (metrics agg_eval)" by (simp_all add: agg_eval_def)
  have e0: "exact_diff exact (F64 (Fin 20)) (F64 (Fin 20)) 0"
    by (simp add: exact_def max_float_def)
  have e1: "exact_diff exact (F64 (Fin 0)) (F64 (Fin 10)) (- 10)"
    by (simp add: exact_def max_float_def)
  have m: "MAE exact [F64 (Fin 20)] [F64 (Fin 20)] = Some (Fin 0)"
     "MAE exact [F64 (Fin 0)] [F64 (Fin 10)] = Some (Fin 10)"
     "MSE exact [F64 (Fin 20)] [F64 (Fin 20)] = Some (Fin 0)"
     "MSE exact [F64 (Fin 0)] [F64 (Fin 10)] = Some (Fin 100)"
    by (simp_all add: eval_defs fl_exact_small)
  have m2: "RMSE exact [F64 (Fin 20)] [F64 (Fin 20)] = Some (Fin 0)"
     "RMSE exact [F64 (Fin 0)] [F64 (Fin 10)] = Some (Fin 10)"
    unfolding RMSE_def m by (simp_all add: fl_exact_small)
  obtain metrics_df where c: "compute_metrics exact example_ext spec_example agg_eval = Some metrics_df"
    by (simp add: compute_metrics_def agg_eval_def s k metrics_table_simps m m2)
  note th = aggregate_metrics_of_sums[OF rounding_exact agg c]
  from th e0 have v0: "to_float exact (v_abs (v_sub exact (F64 (Fin 20)) (F64 (Fin 20)))) = Fin \<bar>0\<bar>"
    "to_float exact (v_square exact (v_sub exact (F64 (Fin 20)) (F64 (Fin 20)))) = Fin (0 * 0)"
    "np_sqrt exact (to_float exact (v_square exact (v_sub exact (F64 (Fin 20)) (F64 (Fin 20))))) = Fin \<bar>0\<bar>"
    by blast+
  from th e1 have v1: "to_float exact (v_abs (v_sub exact (F64 (Fin 0)) (F64 (Fin 10)))) = Fin \<bar>- 10\<bar>"
    "to_float exact (v_square exact (v_sub exact (F64 (Fin 0)) (F64 (Fin 10)))) = Fin (- 10 * - 10)"
    "np_sqrt exact (to_float exact (v_square exact (v_sub exact (F64 (Fin 0)) (F64 (Fin 10))))) = Fin \<bar>- 10\<bar>"
    by blast+
  from th ms have
    "get_col metrics_df ''MAE'' =
       Some (map (\<lambda>(t, f). Num (F64 (to_float exact (v_abs (v_sub exact t f)))))
              (map (row_values exact) (group_sums example_ext spec_example)))"
    "get_col metrics_df ''MSE'' =
       Some (map (\<lambda>(t, f). Num (F64 (to_float exact (v_square exact (v_sub exact t f)))))
              (map (row_values exact) (group_sums example_ext spec_example)))"
    "get_col metrics_df ''RMSE'' =
       Some (map (\<lambda>(t, f). Num (F64 (np_sqrt exact (to_float exact (v_square exact (v_sub exact t f))))))
              (map (row_values exact) (group_sums example_ext spec_example)))"
    by blast+
  then have "get_col metrics_df ''MAE'' = Some [Num (F64 (Fin 0)), Num (F64 (Fin 10))]"
    "get_col metrics_df ''MSE'' = Some [Num (F64 (Fin 0)), Num (F64 (Fin 100))]"
    "get_col metrics_df ''RMSE'' = Some [Num (F64 (Fin 0)), Num (F64 (Fin 10))]"
    unfolding s list.map row_values.simps to_float.simps prod.case v0 v1
    by (simp_all add: fl_exact_small)
  with c rounding_exact agg e1 show ?thesis by blast
qed
end
